theory Spec2Isabelle
  imports Complex_Main
begin

section \<open>Turtle adventure: the simulation core of turtle\_adventure.py\<close>

text \<open>
  Conventions of the embedding.
  \<^item> Python \<open>int\<close> is \<open>int\<close>. Python \<open>float\<close> is idealised as \<open>real\<close>: every
    statement below is about exact arithmetic, rounding is not modelled. Positions are
    \<open>real\<close> throughout (an integer position is an integral real).
  \<^item> An object is a record; a subclass extends the record of its base class. Attributes
    that are assigned once in \<open>__init__\<close> to a literal and never again (they are
    name-mangled private attributes) are constants named after the attribute.
  \<^item> The canvas item of an enemy is modelled by its fill colour only: \<open>None\<close> before
    \<open>create()\<close>, \<open>Some fill\<close> afterwards. \<open>render()\<close> writes item coordinates to the canvas
    and nothing else; it is left out.
  \<^item> The module \<open>random\<close> is a stream \<open>rnd\<close> of naturals with a read position \<open>drawn\<close>.
  \<^item> Exceptions are values of type \<open>error\<close>; a fallible operation returns \<open>error + 'a\<close>.
\<close>

subsection \<open>Errors and library functions\<close>

datatype error = ValueError | TypeError | KeyError

text \<open>\<open>math.atan2(y, x)\<close> on exact reals (no signed zero); \<open>atan2(0, 0) = 0\<close>.\<close>

definition atan2 :: "real \<Rightarrow> real \<Rightarrow> real" where
  "atan2 yy xx =
     (if 0 < xx then arctan (yy / xx)
      else if xx < 0 \<and> 0 \<le> yy then arctan (yy / xx) + pi
      else if xx < 0 \<and> yy < 0 then arctan (yy / xx) - pi
      else if 0 < yy then pi / 2
      else if yy < 0 then - (pi / 2)
      else 0)"

text \<open>\<open>random.randint(a, b)\<close>: an integer of \<open>[a, b]\<close> chosen by the draw \<open>n\<close>;
  \<open>ValueError\<close> on an empty range.\<close>

definition randint :: "int \<Rightarrow> int \<Rightarrow> nat \<Rightarrow> error + int" where
  "randint a b n = (if b < a then Inl ValueError else Inr (a + int n mod (b - a + 1)))"

text \<open>\<open>random.choice(seq)\<close> on a non-empty list: the element chosen by the draw \<open>n\<close>.\<close>

definition choice :: "'a list \<Rightarrow> nat \<Rightarrow> 'a" where
  "choice xs n = xs ! (n mod length xs)"

subsection \<open>Game elements\<close>

text \<open>
  Modelled from the spec: the base class \<open>GameElement\<close> of \<open>gamelib\<close> is not among the
  sources. The spec gives every entity a position \<open>(x, y)\<close>; the sources read and assign
  \<open>self.x\<close> and \<open>self.y\<close> as plain attributes. A fresh element is at \<open>(0, 0)\<close> here; every
  enemy is positioned by \<open>__spawn_enemy\<close> before it is registered.
\<close>

record waypoint =
  w_x :: real
  w_y :: real
  w_active :: bool

record home =
  h_x :: real
  h_y :: real
  h_size :: int

text \<open>The player's position is the position of its turtle; \<open>p_heading\<close> is the turtle's
  heading (in radians).\<close>

record player =
  p_x :: real
  p_y :: real
  p_heading :: real
  p_speed :: real

record enemy =
  e_x :: real
  e_y :: real
  e_size :: int
  e_color :: string

record random_walk_enemy = enemy +
  rw_obj :: "string option"
  rw_speed_x :: real
  rw_speed_y :: real

record chasing_enemy = enemy +
  ch_obj :: "string option"

datatype fencing_state = MoveUp | MoveLeft | MoveDown | MoveRight

record fencing_enemy = enemy +
  fe_obj :: "string option"
  fe_path_rad :: int
  fe_state :: fencing_state

datatype charger_state = Hunt | Charge | Strike | Break

record charger_enemy = enemy +
  cg_obj :: "string option"
  cg_speed :: real
  cg_break_deg :: "real option"
  cg_state :: charger_state
  cg_charge_state :: int
  cg_charge_loc :: "(real \<times> real) option"

text \<open>The classes an \<open>EnemyGenerator\<close> instantiates, and the instances.\<close>

datatype enemy_type = DemoEnemy | RandomWalkEnemy | ChasingEnemy | FencingEnemy | ChargerEnemy

datatype enemy_obj =
    Demo enemy
  | RandomWalk random_walk_enemy
  | Chasing chasing_enemy
  | Fencing fencing_enemy
  | Charger charger_enemy

text \<open>The element list of the game holds references: the three singletons by name, each
  enemy by value (an enemy is referenced from the element list only).\<close>

datatype element = ElWaypoint | ElHome | ElPlayer | ElEnemy enemy_obj

text \<open>The closure \<open>lambda: self.__spawn_enemy(enemy_type, enemy_size, enemy_col, delay,
  spawn_quota-1)\<close> as data: type, size, colour, delay, quota.\<close>

datatype callback = SpawnEnemy enemy_type int string int int

text \<open>
  \<open>TurtleAdventureGame\<close>. Modelled from the spec: its base class \<open>Game\<close> of \<open>gamelib\<close> is not
  among the sources. From the spec's controller and delayed-callback service come the
  registered \<open>elements\<close>, the flag \<open>is_running\<close> that \<open>stop()\<close> clears, and the pending
  \<open>timers\<close> (due time and callback, earliest first) with the logical \<open>clock\<close>. \<open>texts\<close> are
  the text items drawn on the canvas (text and fill).
\<close>

record game =
  level :: int
  screen_width :: int
  screen_height :: int
  waypoint :: waypoint
  home :: home
  player :: player
  enemies :: "enemy_obj list"
  elements :: "element list"
  is_running :: bool
  timers :: "(int \<times> callback) list"
  clock :: int
  texts :: "(string \<times> string) list"
  rnd :: "nat \<Rightarrow> nat"
  drawn :: nat

subsection \<open>Waypoint and Home\<close>

definition activate :: "real \<Rightarrow> real \<Rightarrow> waypoint \<Rightarrow> waypoint" where
  "activate xx yy w = w\<lparr>w_active := True, w_x := xx, w_y := yy\<rparr>"

definition deactivate :: "waypoint \<Rightarrow> waypoint" where
  "deactivate w = w\<lparr>w_active := False\<rparr>"

definition home_init :: "real \<times> real \<Rightarrow> int \<Rightarrow> home" where
  "home_init pos sz = \<lparr>h_x = fst pos, h_y = snd pos, h_size = sz\<rparr>"

text \<open>The setter of the property \<open>Home.size\<close>.\<close>

definition home_set_size :: "int \<Rightarrow> home \<Rightarrow> home" where
  "home_set_size val h = h\<lparr>h_size := val\<rparr>"

definition contains :: "home \<Rightarrow> real \<Rightarrow> real \<Rightarrow> bool" where
  "contains h xx yy =
     (let x1 = h_x h - real_of_int (h_size h) / 2; x2 = h_x h + real_of_int (h_size h) / 2;
          y1 = h_y h - real_of_int (h_size h) / 2; y2 = h_y h + real_of_int (h_size h) / 2
      in (x1 \<le> xx \<and> xx \<le> x2) \<and> (y1 \<le> yy \<and> yy \<le> y2))"

subsection \<open>Enemy: the shared contract\<close>

definition enemy_init :: "int \<Rightarrow> string \<Rightarrow> enemy" where
  "enemy_init sz col = \<lparr>e_x = 0, e_y = 0, e_size = sz, e_color = col\<rparr>"

definition hits_player :: "game \<Rightarrow> 'a enemy_scheme \<Rightarrow> bool" where
  "hits_player g e =
     ((e_x e - real_of_int (e_size e) / 2 < p_x (player g)
        \<and> p_x (player g) < e_x e + real_of_int (e_size e) / 2)
      \<and>
      (e_y e - real_of_int (e_size e) / 2 < p_y (player g)
        \<and> p_y (player g) < e_y e + real_of_int (e_size e) / 2))"

text \<open>Sequencing of fallible operations: an exception ends the computation.\<close>

definition and_then :: "error + 'a \<Rightarrow> ('a \<Rightarrow> error + 'b) \<Rightarrow> error + 'b" where
  "and_then m f = (case m of Inl err \<Rightarrow> Inl err | Inr v \<Rightarrow> f v)"

text \<open>\<open>Enemy.spawn_location\<close>: two draws, the screen quadrant diagonally opposite the
  player.\<close>

definition spawn_location :: "game \<Rightarrow> error + ((real \<times> real) \<times> game)" where
  "spawn_location g =
     and_then
       (if p_x (player g) \<le> real_of_int (screen_width g) / 2
        then randint (3 * (screen_width g div 4)) (screen_width g) (rnd g (drawn g))
        else randint 0 (3 * (screen_width g div 4)) (rnd g (drawn g)))
       (\<lambda>spawn_x.
     and_then
       (if p_y (player g) \<le> real_of_int (screen_height g) / 2
        then randint (screen_height g div 2) (screen_height g) (rnd g (Suc (drawn g)))
        else randint 0 (screen_height g div 2) (rnd g (Suc (drawn g))))
       (\<lambda>spawn_y.
          Inr ((real_of_int spawn_x, real_of_int spawn_y), g\<lparr>drawn := drawn g + 2\<rparr>)))"

subsection \<open>The enemy variants: construction\<close>

definition random_walk_init :: "int \<Rightarrow> string \<Rightarrow> random_walk_enemy" where
  "random_walk_init sz col =
     \<lparr>e_x = 0, e_y = 0, e_size = sz, e_color = col,
      rw_obj = None, rw_speed_x = 0, rw_speed_y = 0\<rparr>"

definition rw_acc :: real where "rw_acc = 0.2"
definition rw_max_speed :: real where "rw_max_speed = 2"

definition chasing_init :: "int \<Rightarrow> string \<Rightarrow> chasing_enemy" where
  "chasing_init sz col = \<lparr>e_x = 0, e_y = 0, e_size = sz, e_color = col, ch_obj = None\<rparr>"

definition ch_speed :: real where "ch_speed = 2.75"

text \<open>\<open>FencingEnemy.__init__\<close> draws the patrol radius: \<open>random.randint(15, 75)\<close>.\<close>

definition fencing_init :: "int \<Rightarrow> string \<Rightarrow> nat \<Rightarrow> error + fencing_enemy" where
  "fencing_init sz col n =
     and_then (randint 15 75 n) (\<lambda>rad.
       Inr \<lparr>e_x = 0, e_y = 0, e_size = sz, e_color = col,
            fe_obj = None, fe_path_rad = rad, fe_state = MoveUp\<rparr>)"

definition fe_speed :: real where "fe_speed = 3"

definition charger_init :: "int \<Rightarrow> string \<Rightarrow> charger_enemy" where
  "charger_init sz col =
     \<lparr>e_x = 0, e_y = 0, e_size = sz, e_color = col,
      cg_obj = None, cg_speed = 2, cg_break_deg = None, cg_state = Hunt,
      cg_charge_state = 0, cg_charge_loc = None\<rparr>"

definition cg_break_acc :: real where "cg_break_acc = 1.5"
definition cg_strike_speed :: real where "cg_strike_speed = 25"
definition cg_hunt_speed :: real where "cg_hunt_speed = 2"
definition cg_charge_rad :: real where "cg_charge_rad = 150"
definition cg_charge_speed :: int where "cg_charge_speed = 2"

text \<open>The dictionary \<open>{0: "red", 10: "yellow", 20: "green"}\<close>.\<close>

definition cg_charge_col :: "(int \<times> string) list" where
  "cg_charge_col = [(0, ''red''), (10, ''yellow''), (20, ''green'')]"

text \<open>\<open>enemy_type(self.__game, enemy_size, enemy_col)\<close>.\<close>

fun instantiate :: "enemy_type \<Rightarrow> int \<Rightarrow> string \<Rightarrow> game \<Rightarrow> error + (enemy_obj \<times> game)" where
  "instantiate DemoEnemy sz col g = Inr (Demo (enemy_init sz col), g)"
| "instantiate RandomWalkEnemy sz col g = Inr (RandomWalk (random_walk_init sz col), g)"
| "instantiate ChasingEnemy sz col g = Inr (Chasing (chasing_init sz col), g)"
| "instantiate FencingEnemy sz col g =
     and_then (fencing_init sz col (rnd g (drawn g)))
       (\<lambda>e. Inr (Fencing e, g\<lparr>drawn := Suc (drawn g)\<rparr>))"
| "instantiate ChargerEnemy sz col g = Inr (Charger (charger_init sz col), g)"

text \<open>\<open>FencingEnemy.spawn_location\<close> overrides the default.\<close>

definition fencing_spawn_location :: "game \<Rightarrow> fencing_enemy \<Rightarrow> real \<times> real" where
  "fencing_spawn_location g e =
     (let home_loc = (h_x (home g), h_y (home g))
      in (fst home_loc + real_of_int (fe_path_rad e), snd home_loc + real_of_int (fe_path_rad e)))"

fun obj_spawn_location :: "game \<Rightarrow> enemy_obj \<Rightarrow> error + ((real \<times> real) \<times> game)" where
  "obj_spawn_location g (Fencing e) = Inr (fencing_spawn_location g e, g)"
| "obj_spawn_location g other = spawn_location g"

text \<open>Attribute access on an instance of any variant.\<close>

fun set_pos :: "real \<times> real \<Rightarrow> enemy_obj \<Rightarrow> enemy_obj" where
  "set_pos loc (Demo e) = Demo (e\<lparr>e_x := fst loc, e_y := snd loc\<rparr>)"
| "set_pos loc (RandomWalk e) = RandomWalk (e\<lparr>e_x := fst loc, e_y := snd loc\<rparr>)"
| "set_pos loc (Chasing e) = Chasing (e\<lparr>e_x := fst loc, e_y := snd loc\<rparr>)"
| "set_pos loc (Fencing e) = Fencing (e\<lparr>e_x := fst loc, e_y := snd loc\<rparr>)"
| "set_pos loc (Charger e) = Charger (e\<lparr>e_x := fst loc, e_y := snd loc\<rparr>)"

fun obj_x :: "enemy_obj \<Rightarrow> real" where
  "obj_x (Demo e) = e_x e"
| "obj_x (RandomWalk e) = e_x e"
| "obj_x (Chasing e) = e_x e"
| "obj_x (Fencing e) = e_x e"
| "obj_x (Charger e) = e_x e"

fun obj_y :: "enemy_obj \<Rightarrow> real" where
  "obj_y (Demo e) = e_y e"
| "obj_y (RandomWalk e) = e_y e"
| "obj_y (Chasing e) = e_y e"
| "obj_y (Fencing e) = e_y e"
| "obj_y (Charger e) = e_y e"

fun obj_size :: "enemy_obj \<Rightarrow> int" where
  "obj_size (Demo e) = e_size e"
| "obj_size (RandomWalk e) = e_size e"
| "obj_size (Chasing e) = e_size e"
| "obj_size (Fencing e) = e_size e"
| "obj_size (Charger e) = e_size e"

fun obj_color :: "enemy_obj \<Rightarrow> string" where
  "obj_color (Demo e) = e_color e"
| "obj_color (RandomWalk e) = e_color e"
| "obj_color (Chasing e) = e_color e"
| "obj_color (Fencing e) = e_color e"
| "obj_color (Charger e) = e_color e"

fun type_of :: "enemy_obj \<Rightarrow> enemy_type" where
  "type_of (Demo e) = DemoEnemy"
| "type_of (RandomWalk e) = RandomWalkEnemy"
| "type_of (Chasing e) = ChasingEnemy"
| "type_of (Fencing e) = FencingEnemy"
| "type_of (Charger e) = ChargerEnemy"

text \<open>\<open>create()\<close> of each variant: the canvas item, filled with the enemy's colour.
  \<open>DemoEnemy.create\<close> is \<open>pass\<close>.\<close>

fun create :: "enemy_obj \<Rightarrow> enemy_obj" where
  "create (Demo e) = Demo e"
| "create (RandomWalk e) = RandomWalk (e\<lparr>rw_obj := Some (e_color e)\<rparr>)"
| "create (Chasing e) = Chasing (e\<lparr>ch_obj := Some (e_color e)\<rparr>)"
| "create (Fencing e) = Fencing (e\<lparr>fe_obj := Some (e_color e)\<rparr>)"
| "create (Charger e) = Charger (e\<lparr>cg_obj := Some (e_color e)\<rparr>)"

subsection \<open>The controller's services\<close>

text \<open>Modelled from the spec: \<open>Game.add_element\<close> is not among the sources. The spec:
  "add_element registers entity for the per-frame pass and invokes its create()".\<close>

fun add_element :: "element \<Rightarrow> game \<Rightarrow> game" where
  "add_element (ElEnemy e) g = g\<lparr>elements := elements g @ [ElEnemy (create e)]\<rparr>"
| "add_element el g = g\<lparr>elements := elements g @ [el]\<rparr>"

text \<open>Modelled from the spec: \<open>Game.after\<close> is not among the sources. The spec's
  delayed-callback service: "schedule(delay_ms, callback) - fires callback once, logical
  time >= now+delay_ms, on the simulation thread". Pending timers are kept in order of
  due time, first scheduled first among equals.\<close>

fun insert_timer :: "int \<times> callback \<Rightarrow> (int \<times> callback) list \<Rightarrow> (int \<times> callback) list" where
  "insert_timer t [] = [t]"
| "insert_timer t (u # us) = (if fst t < fst u then t # u # us else u # insert_timer t us)"

definition after :: "int \<Rightarrow> callback \<Rightarrow> game \<Rightarrow> game" where
  "after delay cb g = g\<lparr>timers := insert_timer (clock g + delay, cb) (timers g)\<rparr>"

text \<open>Modelled from the spec: \<open>Game.stop\<close> is not among the sources. The spec: "On
  game-over (win or lose): stop further ticking permanently (terminal; no resume)", and
  "stopping the game must prevent any further scheduled callback from taking effect
  (pending spawn timers and per-frame ticks must check a "stopped" flag before acting, or
  be unregistered)". \<open>__spawn_enemy\<close> of the sources tests no flag, so stopping clears the
  running flag and unregisters every pending timer.\<close>

definition stop :: "game \<Rightarrow> game" where
  "stop g = g\<lparr>is_running := False, timers := []\<rparr>"

definition game_over_win :: "game \<Rightarrow> game" where
  "game_over_win g = (stop g)\<lparr>texts := texts (stop g) @ [(''You Win'', ''green'')]\<rparr>"

definition game_over_lose :: "game \<Rightarrow> game" where
  "game_over_lose g = (stop g)\<lparr>texts := texts (stop g) @ [(''You Lose'', ''red'')]\<rparr>"

definition add_enemy :: "enemy_obj \<Rightarrow> game \<Rightarrow> game" where
  "add_enemy e g = add_element (ElEnemy e) (g\<lparr>enemies := enemies g @ [e]\<rparr>)"

subsection \<open>EnemyGenerator\<close>

text \<open>\<open>EnemyGenerator.__spawn_enemy\<close>. The only guard is \<open>spawn_quota > 0\<close>.\<close>

definition spawn_enemy :: "enemy_type \<Rightarrow> int \<Rightarrow> string \<Rightarrow> int \<Rightarrow> int \<Rightarrow> game \<Rightarrow> error + game" where
  "spawn_enemy enemy_ty enemy_size enemy_col delay spawn_quota g =
     (if 0 < spawn_quota then
        and_then (instantiate enemy_ty enemy_size enemy_col g) (\<lambda>(new_enemy, g1).
        and_then (obj_spawn_location g1 new_enemy) (\<lambda>(spawn_loc, g2).
          Inr (after delay (SpawnEnemy enemy_ty enemy_size enemy_col delay (spawn_quota - 1))
                 (add_element (ElEnemy (set_pos spawn_loc new_enemy)) g2))))
      else Inr g)"

text \<open>The table \<open>enemies_type\<close>: class, size, colour, spawn delay, spawn quota.\<close>

type_synonym enemy_spec = "enemy_type \<times> int \<times> string \<times> int \<times> int"

definition enemies_type :: "enemy_spec list" where
  "enemies_type =
     [(RandomWalkEnemy, 20, ''red'', 10000, 5), (ChasingEnemy, 10, ''yellow'', 20000, 2),
      (FencingEnemy, 15, ''orange'', 15000, 2), (ChargerEnemy, 18, ''navy'', 25000, 1)]"

text \<open>The dictionaries \<open>low_lvl\<close> and \<open>high_lvl\<close>; a missing key raises \<open>KeyError\<close>.\<close>

definition low_lvl :: "enemy_type \<rightharpoonup> int" where
  "low_lvl = [RandomWalkEnemy \<mapsto> 5, ChasingEnemy \<mapsto> 2, FencingEnemy \<mapsto> 4, ChargerEnemy \<mapsto> 1]"

definition high_lvl :: "int \<Rightarrow> enemy_type \<rightharpoonup> int" where
  "high_lvl extra =
     [RandomWalkEnemy \<mapsto> 3 + extra, ChasingEnemy \<mapsto> 4 + extra,
      FencingEnemy \<mapsto> 3 + extra, ChargerEnemy \<mapsto> 3 + extra]"

definition lookup :: "('k \<rightharpoonup> 'v) \<Rightarrow> 'k \<Rightarrow> error + 'v" where
  "lookup d k = (case d k of None \<Rightarrow> Inl KeyError | Some v \<Rightarrow> Inr v)"

text \<open>The loop \<open>for i in range(self.level)\<close> of the low-level branch.\<close>

fun spawn_low :: "nat list \<Rightarrow> game \<Rightarrow> error + game" where
  "spawn_low [] g = Inr g"
| "spawn_low (i # rest) g =
     and_then (lookup low_lvl (fst (enemies_type ! i))) (\<lambda>amount.
       (case enemies_type ! i of (ty, sz, col, delay, quota) \<Rightarrow>
          and_then (spawn_enemy ty sz col 100 amount g) (spawn_low rest)))"

text \<open>The loop \<open>for j in range(high_lvl[i[0]])\<close>: \<open>n\<close> calls with the same arguments.\<close>

fun spawn_times :: "nat \<Rightarrow> enemy_type \<Rightarrow> int \<Rightarrow> string \<Rightarrow> int \<Rightarrow> int \<Rightarrow> game \<Rightarrow> error + game" where
  "spawn_times 0 ty sz col delay quota g = Inr g"
| "spawn_times (Suc n) ty sz col delay quota g =
     and_then (spawn_enemy ty sz col delay quota g) (spawn_times n ty sz col delay quota)"

text \<open>The loop \<open>for i in enemies_type\<close> of the high-level branch.\<close>

fun spawn_high :: "enemy_spec list \<Rightarrow> game \<Rightarrow> error + game" where
  "spawn_high [] g = Inr g"
| "spawn_high ((ty, sz, col, delay, quota) # rest) g =
     and_then (lookup (high_lvl (level g div 20)) ty) (\<lambda>n.
     and_then (spawn_times (nat n) ty sz col (delay div (1 + level g div 10)) quota g)
       (spawn_high rest))"

definition create_enemy :: "game \<Rightarrow> error + game" where
  "create_enemy g =
     (if level g < int (length enemies_type)
      then spawn_low [0 ..< nat (level g)] g
      else spawn_high enemies_type g)"

text \<open>Modelled from the spec: the event loop that fires a scheduled callback is not among
  the sources. When a timer fires, it is removed, the clock moves to its due time, and its
  callback runs; the callback is \<open>__spawn_enemy\<close> of the sources. \<open>fire_timer\<close> is that
  firing for the earliest pending timer.\<close>

fun run_callback :: "callback \<Rightarrow> game \<Rightarrow> error + game" where
  "run_callback (SpawnEnemy ty sz col delay quota) g = spawn_enemy ty sz col delay quota g"

definition fire_timer :: "game \<Rightarrow> error + game" where
  "fire_timer g =
     (case timers g of
        [] \<Rightarrow> Inr g
      | (due, cb) # rest \<Rightarrow> run_callback cb (g\<lparr>timers := rest, clock := max (clock g) due\<rparr>))"

text \<open>Modelled from the spec: the next timer event of a session. By the spec's
  cancellation rule no scheduled callback takes effect once the game is stopped: only a
  running session fires its earliest pending timer.\<close>

definition fire_next :: "game \<Rightarrow> error + game" where
  "fire_next g = (if is_running g then fire_timer g else Inr g)"

text \<open>The pending timer chains run to their end, one firing after the other, as they do
  when nothing stops the session meanwhile. The work still pending is the sum, over the
  pending timers, of the remaining quota plus one; every firing lowers it.\<close>

definition timer_weight :: "int \<times> callback \<Rightarrow> nat" where
  "timer_weight t = (case snd t of SpawnEnemy ty sz col d q \<Rightarrow> Suc (nat q))"

definition pending_work :: "game \<Rightarrow> nat" where
  "pending_work g = sum_list (map timer_weight (timers g))"

lemma and_then_simps [simp]:
  "and_then (Inl err) f = Inl err"
  "and_then (Inr v) f = f v"
  by (simp_all add: and_then_def)

lemma and_then_Inr_iff:
  "and_then m f = Inr r \<longleftrightarrow> (\<exists>v. m = Inr v \<and> f v = Inr r)"
  by (cases m) simp_all

lemma sum_insert_timer:
  "sum_list (map f (insert_timer t ts)) = (f t :: nat) + sum_list (map f ts)"
  by (induction ts) auto

lemma instantiate_timers:
  "instantiate ty sz col g = Inr (e, g') \<Longrightarrow> timers g' = timers g"
  by (cases ty) (auto simp: and_then_Inr_iff)

lemma spawn_location_timers:
  "spawn_location g = Inr (loc, g') \<Longrightarrow> timers g' = timers g"
  by (auto simp: spawn_location_def and_then_Inr_iff)

lemma obj_spawn_location_timers:
  "obj_spawn_location g e = Inr (loc, g') \<Longrightarrow> timers g' = timers g"
  by (cases e) (auto dest: spawn_location_timers)

lemma add_element_timers [simp]: "timers (add_element el g) = timers g"
  by (cases el) auto

lemma spawn_enemy_work:
  assumes "spawn_enemy ty sz col d q g = Inr g'"
  shows "pending_work g' = pending_work g + nat q"
proof (cases "0 < q")
  case False
  with assms show ?thesis by (simp add: spawn_enemy_def)
next
  case True
  with assms obtain e g1 loc g2 where
    c: "instantiate ty sz col g = Inr (e, g1)" and
    l: "obj_spawn_location g1 e = Inr (loc, g2)" and
    r: "g' = after d (SpawnEnemy ty sz col d (q - 1)) (add_element (ElEnemy (set_pos loc e)) g2)"
    by (auto simp: spawn_enemy_def and_then_Inr_iff)
  have "timers g2 = timers g"
    using instantiate_timers [OF c] obj_spawn_location_timers [OF l] by simp
  with r True show ?thesis
    by (simp add: pending_work_def after_def sum_insert_timer timer_weight_def nat_diff_distrib)
qed

lemma fire_timer_decreases:
  assumes "timers g \<noteq> []" "fire_timer g = Inr g'"
  shows "pending_work g' < pending_work g"
proof -
  from assms(1) obtain due cb rest where t: "timers g = (due, cb) # rest"
    by (cases "timers g") auto
  obtain ty sz col d q where cb: "cb = SpawnEnemy ty sz col d q" by (cases cb) auto
  from assms(2) t cb have
    "spawn_enemy ty sz col d q (g\<lparr>timers := rest, clock := max (clock g) due\<rparr>) = Inr g'"
    by (simp add: fire_timer_def)
  from spawn_enemy_work [OF this] t cb show ?thesis
    by (simp add: pending_work_def timer_weight_def)
qed

function run_timers :: "game \<Rightarrow> error + game" where
  "run_timers g =
     (if timers g = [] then Inr g
      else (case fire_timer g of Inl err \<Rightarrow> Inl err | Inr g' \<Rightarrow> run_timers g'))"
  by pat_completeness auto
termination
  by (relation "measure pending_work") (auto simp: fire_timer_decreases)

declare run_timers.simps [simp del]

text \<open>The number of registered enemies of a class.\<close>

fun is_enemy_of :: "enemy_type \<Rightarrow> element \<Rightarrow> bool" where
  "is_enemy_of ty (ElEnemy e) = (type_of e = ty)"
| "is_enemy_of ty el = False"

definition count_type :: "enemy_type \<Rightarrow> game \<Rightarrow> nat" where
  "count_type ty g = length (filter (is_enemy_of ty) (elements g))"

text \<open>The generator followed by all its timer chains: the number of enemies of a class
  that are registered in the end.\<close>

definition total_spawned :: "enemy_type \<Rightarrow> game \<Rightarrow> error + nat" where
  "total_spawned ty g =
     and_then (create_enemy g) (\<lambda>g1. and_then (run_timers g1) (\<lambda>g2. Inr (count_type ty g2)))"

subsection \<open>Player\<close>

text \<open>The turtle of the standard library, in world coordinates: \<open>towards\<close>, \<open>setheading\<close>,
  \<open>forward\<close> and \<open>distance\<close>. Angles are kept in radians.\<close>

definition towards :: "player \<Rightarrow> real \<Rightarrow> real \<Rightarrow> real" where
  "towards p xx yy = atan2 (yy - p_y p) (xx - p_x p)"

definition setheading :: "real \<Rightarrow> player \<Rightarrow> player" where
  "setheading a p = p\<lparr>p_heading := a\<rparr>"

definition forward :: "real \<Rightarrow> player \<Rightarrow> player" where
  "forward d p = p\<lparr>p_x := p_x p + d * cos (p_heading p), p_y := p_y p + d * sin (p_heading p)\<rparr>"

definition distance :: "player \<Rightarrow> real \<Rightarrow> real \<Rightarrow> real" where
  "distance p xx yy = sqrt ((xx - p_x p)\<^sup>2 + (yy - p_y p)\<^sup>2)"

text \<open>\<open>Player.update\<close>. The test for home is not followed by a \<open>return\<close>: the movement
  below it runs in either case.\<close>

definition update_player :: "game \<Rightarrow> game" where
  "update_player g =
     (let g1 = (if contains (home g) (p_x (player g)) (p_y (player g))
                then game_over_win g else g)
      in if w_active (waypoint g1) then
           (let pl = forward (p_speed (player g1))
                       (setheading (towards (player g1) (w_x (waypoint g1)) (w_y (waypoint g1)))
                          (player g1));
                g2 = g1\<lparr>player := pl\<rparr>
            in if distance pl (w_x (waypoint g2)) (w_y (waypoint g2)) < p_speed pl
               then g2\<lparr>waypoint := deactivate (waypoint g2)\<rparr> else g2)
         else g1)"

subsection \<open>The enemy variants: update\<close>

text \<open>\<open>RandomWalkEnemy.update\<close>: two draws, the clamp against the upper bound only, the
  reflection against 0 and \<open>screen_height\<close> on both axes, as the source has them. The
  statements before the final \<open>hits_player()\<close> test are \<open>random_walk_move\<close>.\<close>

definition random_walk_move :: "game \<Rightarrow> random_walk_enemy \<Rightarrow> random_walk_enemy" where
  "random_walk_move g e =
     (let acc_x = choice [- rw_acc, rw_acc] (rnd g (drawn g));
          acc_y = choice [- rw_acc, rw_acc] (rnd g (Suc (drawn g)));
          e1 = e\<lparr>rw_speed_x := rw_speed_x e + acc_x\<rparr>;
          e2 = e1\<lparr>rw_speed_y := rw_speed_y e1 + acc_y\<rparr>;
          e3 = (if rw_speed_x e2 > rw_max_speed then e2\<lparr>rw_speed_x := rw_max_speed\<rparr> else e2);
          e4 = (if rw_speed_y e3 > rw_max_speed then e3\<lparr>rw_speed_y := rw_max_speed\<rparr> else e3);
          e5 = (if e_x e4 < 0 then e4\<lparr>rw_speed_x := \<bar>rw_speed_x e4\<bar>\<rparr>
                else if e_x e4 > real_of_int (screen_height g)
                then e4\<lparr>rw_speed_x := - \<bar>rw_speed_x e4\<bar>\<rparr> else e4);
          e6 = e5\<lparr>e_x := e_x e5 + rw_speed_x e5\<rparr>;
          e7 = (if e_y e6 < 0 then e6\<lparr>rw_speed_y := \<bar>rw_speed_y e6\<bar>\<rparr>
                else if e_y e6 > real_of_int (screen_height g)
                then e6\<lparr>rw_speed_y := - \<bar>rw_speed_y e6\<bar>\<rparr> else e6)
      in e7\<lparr>e_y := e_y e7 + rw_speed_y e7\<rparr>)"

definition random_walk_update :: "game \<Rightarrow> random_walk_enemy \<Rightarrow> random_walk_enemy \<times> game" where
  "random_walk_update g e =
     (let e8 = random_walk_move g e;
          g1 = g\<lparr>drawn := drawn g + 2\<rparr>
      in (e8, if hits_player g1 e8 then game_over_lose g1 else g1))"

definition chasing_update :: "game \<Rightarrow> chasing_enemy \<Rightarrow> chasing_enemy \<times> game" where
  "chasing_update g e =
     (let player_x = p_x (player g) - e_x e;
          player_y = p_y (player g) - e_y e;
          deg = atan2 player_y player_x;
          e1 = e\<lparr>e_x := e_x e + cos deg * ch_speed\<rparr>;
          e2 = e1\<lparr>e_y := e_y e1 + sin deg * ch_speed\<rparr>
      in (e2, if hits_player g e2 then game_over_lose g else g))"

definition move_up :: "game \<Rightarrow> fencing_enemy \<Rightarrow> fencing_enemy" where
  "move_up g e =
     (let e1 = e\<lparr>e_y := e_y e - fe_speed\<rparr>
      in if e_y e1 < h_y (home g) - real_of_int (fe_path_rad e1)
         then e1\<lparr>fe_state := MoveLeft\<rparr> else e1)"

definition move_left :: "game \<Rightarrow> fencing_enemy \<Rightarrow> fencing_enemy" where
  "move_left g e =
     (let e1 = e\<lparr>e_x := e_x e - fe_speed\<rparr>
      in if e_x e1 < h_x (home g) - real_of_int (fe_path_rad e1)
         then e1\<lparr>fe_state := MoveDown\<rparr> else e1)"

definition move_down :: "game \<Rightarrow> fencing_enemy \<Rightarrow> fencing_enemy" where
  "move_down g e =
     (let e1 = e\<lparr>e_y := e_y e + fe_speed\<rparr>
      in if e_y e1 > h_y (home g) + real_of_int (fe_path_rad e1)
         then e1\<lparr>fe_state := MoveRight\<rparr> else e1)"

definition move_right :: "game \<Rightarrow> fencing_enemy \<Rightarrow> fencing_enemy" where
  "move_right g e =
     (let e1 = e\<lparr>e_x := e_x e + fe_speed\<rparr>
      in if e_x e1 > h_x (home g) + real_of_int (fe_path_rad e1)
         then e1\<lparr>fe_state := MoveUp\<rparr> else e1)"

text \<open>\<open>self.state()\<close>: the bound method stored in \<open>state\<close> is called.\<close>

definition fencing_state_call :: "game \<Rightarrow> fencing_enemy \<Rightarrow> fencing_enemy" where
  "fencing_state_call g e =
     (case fe_state e of
        MoveUp \<Rightarrow> move_up g e
      | MoveLeft \<Rightarrow> move_left g e
      | MoveDown \<Rightarrow> move_down g e
      | MoveRight \<Rightarrow> move_right g e)"

definition fencing_update :: "game \<Rightarrow> fencing_enemy \<Rightarrow> fencing_enemy \<times> game" where
  "fencing_update g e =
     (let e1 = fencing_state_call g e
      in (e1, if hits_player g e1 then game_over_lose g else g))"

text \<open>\<open>canvas.itemconfigure(self.__obj, fill=col)\<close>.\<close>

definition itemconfigure :: "string option \<Rightarrow> string \<Rightarrow> string option" where
  "itemconfigure obj col = map_option (\<lambda>old. col) obj"

definition cg_hunt :: "game \<Rightarrow> charger_enemy \<Rightarrow> charger_enemy" where
  "cg_hunt g e =
     (let player_x = p_x (player g) - e_x e;
          player_y = p_y (player g) - e_y e
      in if sqrt (player_x\<^sup>2 + player_y\<^sup>2) \<le> cg_charge_rad
         then e\<lparr>cg_state := Charge\<rparr>
         else (let deg = atan2 player_y player_x;
                   e1 = e\<lparr>e_x := e_x e + cos deg * cg_speed e\<rparr>
               in e1\<lparr>e_y := e_y e1 + sin deg * cg_speed e1\<rparr>))"

text \<open>\<open>max(self.__charge_col.keys())\<close>.\<close>

definition max_key :: "(int \<times> string) list \<Rightarrow> int" where
  "max_key d = foldr max (map fst (tl d)) (fst (hd d))"

definition cg_charge :: "game \<Rightarrow> charger_enemy \<Rightarrow> error + charger_enemy" where
  "cg_charge g e =
     and_then
       (if cg_charge_state e mod 10 = 0
        then and_then (lookup (map_of cg_charge_col) (cg_charge_state e))
               (\<lambda>col. Inr (e\<lparr>cg_obj := itemconfigure (cg_obj e) col\<rparr>))
        else Inr e)
       (\<lambda>e1.
          let e2 = e1\<lparr>cg_charge_state := cg_charge_state e1 + cg_charge_speed\<rparr>
          in Inr (if cg_charge_state e2 > max_key cg_charge_col
                  then e2\<lparr>cg_charge_loc := Some (p_x (player g), p_y (player g)),
                          cg_state := Strike, cg_charge_state := 0,
                          cg_speed := cg_strike_speed\<rparr>
                  else e2))"

text \<open>\<open>__strike\<close> subscripts \<open>__charge_loc\<close> and \<open>__break\<close> passes \<open>__break_deg\<close> to
  \<open>math.cos\<close>: each raises \<open>TypeError\<close> on \<open>None\<close>.\<close>

definition cg_strike :: "game \<Rightarrow> charger_enemy \<Rightarrow> error + charger_enemy" where
  "cg_strike g e =
     (case cg_charge_loc e of
        None \<Rightarrow> Inl TypeError
      | Some loc \<Rightarrow>
          (let player_x = fst loc - e_x e;
               player_y = snd loc - e_y e;
               deg = atan2 player_y player_x;
               e1 = e\<lparr>e_x := e_x e + cos deg * cg_speed e\<rparr>;
               e2 = e1\<lparr>e_y := e_y e1 + sin deg * cg_speed e1\<rparr>;
               line = sqrt (player_x\<^sup>2 + player_y\<^sup>2)
           in Inr (if line < 25 then e2\<lparr>cg_state := Break, cg_break_deg := Some deg\<rparr>
                   else e2)))"

definition cg_break :: "game \<Rightarrow> charger_enemy \<Rightarrow> error + charger_enemy" where
  "cg_break g e =
     (let e1 = e\<lparr>cg_speed := cg_speed e - cg_break_acc\<rparr>
      in case cg_break_deg e1 of
           None \<Rightarrow> Inl TypeError
         | Some break_deg \<Rightarrow>
             (let e2 = e1\<lparr>e_x := e_x e1 + cos break_deg * cg_speed e1\<rparr>;
                  e3 = e2\<lparr>e_y := e_y e2 + sin break_deg * cg_speed e2\<rparr>
              in Inr (if cg_speed e3 \<le> cg_hunt_speed
                      then e3\<lparr>cg_obj := itemconfigure (cg_obj e3) (e_color e3),
                              cg_state := Hunt, cg_speed := cg_hunt_speed\<rparr>
                      else e3)))"

text \<open>\<open>self.__state()\<close>.\<close>

definition charger_state_call :: "game \<Rightarrow> charger_enemy \<Rightarrow> error + charger_enemy" where
  "charger_state_call g e =
     (case cg_state e of
        Hunt \<Rightarrow> Inr (cg_hunt g e)
      | Charge \<Rightarrow> cg_charge g e
      | Strike \<Rightarrow> cg_strike g e
      | Break \<Rightarrow> cg_break g e)"

definition charger_update :: "game \<Rightarrow> charger_enemy \<Rightarrow> error + (charger_enemy \<times> game)" where
  "charger_update g e =
     and_then (charger_state_call g e)
       (\<lambda>e1. Inr (e1, if hits_player g e1 then game_over_lose g else g))"

text \<open>\<open>update()\<close> of an instance of any variant. \<open>DemoEnemy.update\<close> is \<open>pass\<close>.\<close>

fun update :: "game \<Rightarrow> enemy_obj \<Rightarrow> error + (enemy_obj \<times> game)" where
  "update g (Demo e) = Inr (Demo e, g)"
| "update g (RandomWalk e) = (case random_walk_update g e of (e', g') \<Rightarrow> Inr (RandomWalk e', g'))"
| "update g (Chasing e) = (case chasing_update g e of (e', g') \<Rightarrow> Inr (Chasing e', g'))"
| "update g (Fencing e) = (case fencing_update g e of (e', g') \<Rightarrow> Inr (Fencing e', g'))"
| "update g (Charger e) = and_then (charger_update g e) (\<lambda>(e', g'). Inr (Charger e', g'))"

declare update.simps [simp del]

text \<open>\<open>hits_player()\<close> of an instance of any variant.\<close>

fun obj_hits_player :: "game \<Rightarrow> enemy_obj \<Rightarrow> bool" where
  "obj_hits_player g (Demo e) = hits_player g e"
| "obj_hits_player g (RandomWalk e) = hits_player g e"
| "obj_hits_player g (Chasing e) = hits_player g e"
| "obj_hits_player g (Fencing e) = hits_player g e"
| "obj_hits_player g (Charger e) = hits_player g e"

text \<open>A sequence of \<open>update()\<close> calls on one enemy, the \<open>k\<close>-th call in the game state
  \<open>gs ! k\<close> (the player, the home and the random draws may differ from call to call).\<close>

fun updates :: "game list \<Rightarrow> enemy_obj \<Rightarrow> error + enemy_obj" where
  "updates [] e = Inr e"
| "updates (g # gs) e = and_then (update g e) (\<lambda>(e', g'). updates gs e')"

subsection \<open>The frame pass and the session\<close>

text \<open>Modelled from the spec: the frame loop of \<open>Game\<close> is not among the sources. The spec:
  the controller "drives one update+render pass per frame tick"; "game stops (no further
  updates) once a terminal condition fires - this is a must-hold invariant"; after
  game-over it must "stop further ticking permanently". One tick updates the registered
  elements in order of registration, each only while the game is still running; a stopped
  game does not tick.\<close>

definition update_element :: "nat \<Rightarrow> game \<Rightarrow> error + game" where
  "update_element i g =
     (case elements g ! i of
        ElWaypoint \<Rightarrow> Inr g
      | ElHome \<Rightarrow> Inr g
      | ElPlayer \<Rightarrow> Inr (update_player g)
      | ElEnemy e \<Rightarrow>
          and_then (update g e) (\<lambda>(e', g'). Inr (g'\<lparr>elements := (elements g')[i := ElEnemy e']\<rparr>)))"

fun update_pass :: "nat \<Rightarrow> nat \<Rightarrow> game \<Rightarrow> error + game" where
  "update_pass 0 i g = Inr g"
| "update_pass (Suc n) i g =
     (if is_running g then and_then (update_element i g) (update_pass n (Suc i)) else Inr g)"

definition tick :: "game \<Rightarrow> error + game" where
  "tick g = (if is_running g then update_pass (length (elements g)) 0 g else Inr g)"

text \<open>\<open>TurtleAdventureGame.__init__\<close> and \<open>init_game\<close> for a screen, a level and a random
  stream: the waypoint, the home at \<open>(screen_width - 100, screen_height // 2)\<close> of size 20,
  the player (its turtle at the origin, speed 5), the generator, and then the player's
  start position. The constructed session is taken as started.\<close>

definition new_game :: "int \<Rightarrow> int \<Rightarrow> int \<Rightarrow> (nat \<Rightarrow> nat) \<Rightarrow> game" where
  "new_game width height lvl r =
     \<lparr>level = lvl, screen_width = width, screen_height = height,
      waypoint = \<lparr>w_x = 0, w_y = 0, w_active = False\<rparr>,
      home = home_init (real_of_int (width - 100), real_of_int (height div 2)) 20,
      player = \<lparr>p_x = 0, p_y = 0, p_heading = 0, p_speed = 5\<rparr>,
      enemies = [],
      elements = [ElWaypoint, ElHome, ElPlayer],
      is_running = True,
      timers = [], clock = 0, texts = [], rnd = r, drawn = 0\<rparr>"

definition init_game :: "int \<Rightarrow> int \<Rightarrow> int \<Rightarrow> (nat \<Rightarrow> nat) \<Rightarrow> error + game" where
  "init_game width height lvl r =
     and_then (create_enemy (new_game width height lvl r))
       (\<lambda>g. Inr (g\<lparr>player := (player g)\<lparr>p_x := 50, p_y := real_of_int (height div 2)\<rparr>\<rparr>))"

text \<open>What can happen to a session: a frame tick, the next timer firing, a click on the
  canvas (bound to \<open>waypoint.activate\<close>).\<close>

datatype event = Tick | Timer | Click real real

fun step :: "event \<Rightarrow> game \<Rightarrow> error + game" where
  "step Tick g = tick g"
| "step Timer g = fire_next g"
| "step (Click xx yy) g = Inr (g\<lparr>waypoint := activate xx yy (waypoint g)\<rparr>)"

fun run :: "event list \<Rightarrow> game \<Rightarrow> error + game" where
  "run [] g = Inr g"
| "run (ev # evs) g = and_then (step ev g) (run evs)"

subsection \<open>Notions used in the statements\<close>

text \<open>The parts of a scheduled callback, the table's delay and quota of a class, the screen
  sizes for which \<open>random.randint\<close> does not raise, the enemies still due from pending
  timers, and the part of a session that the generator leaves alone.\<close>

definition spawn_ok :: "game \<Rightarrow> bool" where
  "spawn_ok g = (0 \<le> screen_width g \<and> 0 \<le> screen_height g)"

fun cb_type :: "callback \<Rightarrow> enemy_type" where
  "cb_type (SpawnEnemy ty sz col d q) = ty"

fun cb_delay :: "callback \<Rightarrow> int" where
  "cb_delay (SpawnEnemy ty sz col d q) = d"

fun cb_quota :: "callback \<Rightarrow> int" where
  "cb_quota (SpawnEnemy ty sz col d q) = q"

definition quota_sum :: "enemy_type \<Rightarrow> (int \<times> callback) list \<Rightarrow> nat" where
  "quota_sum ty ts = sum_list (map (\<lambda>t. if cb_type (snd t) = ty then nat (cb_quota (snd t)) else 0) ts)"

definition eventual :: "enemy_type \<Rightarrow> game \<Rightarrow> nat" where
  "eventual ty g = count_type ty g + quota_sum ty (timers g)"

definition same_session :: "game \<Rightarrow> game \<Rightarrow> bool" where
  "same_session g g' =
     (level g' = level g \<and> screen_width g' = screen_width g \<and> screen_height g' = screen_height g
      \<and> waypoint g' = waypoint g \<and> home g' = home g \<and> player g' = player g
      \<and> enemies g' = enemies g \<and> is_running g' = is_running g \<and> texts g' = texts g)"

definition base_delay :: "enemy_type \<Rightarrow> int" where
  "base_delay ty =
     (case find (\<lambda>s. fst s = ty) enemies_type of
        Some (t, sz, col, delay, quota) \<Rightarrow> delay | None \<Rightarrow> 0)"

definition base_quota :: "enemy_type \<Rightarrow> int" where
  "base_quota ty =
     (case find (\<lambda>s. fst s = ty) enemies_type of
        Some (t, sz, col, delay, quota) \<Rightarrow> quota | None \<Rightarrow> 0)"

definition high_timer :: "game \<Rightarrow> enemy_spec \<Rightarrow> int \<times> callback" where
  "high_timer g s =
     (case s of (ty, sz, col, delay, quota) \<Rightarrow>
        (clock g + delay div (1 + level g div 10),
         SpawnEnemy ty sz col (delay div (1 + level g div 10)) (quota - 1)))"

text \<open>The cycle of the states of a \<open>FencingEnemy\<close>, the invariant of its patrol around a
  home (per state, the offsets from the home against the patrol radius and the step 3),
  and the distance it still has to go before its state changes.\<close>

fun next_state :: "fencing_state \<Rightarrow> fencing_state" where
  "next_state MoveUp = MoveLeft"
| "next_state MoveLeft = MoveDown"
| "next_state MoveDown = MoveRight"
| "next_state MoveRight = MoveUp"

definition fencing_inv :: "home \<Rightarrow> fencing_enemy \<Rightarrow> bool" where
  "fencing_inv hm e =
     (let r = real_of_int (fe_path_rad e); dx = e_x e - h_x hm; dy = e_y e - h_y hm
      in 0 \<le> r \<and>
         (case fe_state e of
            MoveUp \<Rightarrow> r \<le> dx \<and> dx \<le> r + 3 \<and> - r \<le> dy \<and> dy \<le> r + 3
          | MoveLeft \<Rightarrow> - r \<le> dx \<and> dx \<le> r + 3 \<and> - r - 3 \<le> dy \<and> dy < - r
          | MoveDown \<Rightarrow> - r - 3 \<le> dx \<and> dx < - r \<and> - r - 3 \<le> dy \<and> dy \<le> r
          | MoveRight \<Rightarrow> - r - 3 \<le> dx \<and> dx \<le> r \<and> r < dy \<and> dy \<le> r + 3))"

definition fencing_gap :: "home \<Rightarrow> fencing_enemy \<Rightarrow> real" where
  "fencing_gap hm e =
     (case fe_state e of
        MoveUp \<Rightarrow> e_y e - (h_y hm - real_of_int (fe_path_rad e))
      | MoveLeft \<Rightarrow> e_x e - (h_x hm - real_of_int (fe_path_rad e))
      | MoveDown \<Rightarrow> (h_y hm + real_of_int (fe_path_rad e)) - e_y e
      | MoveRight \<Rightarrow> (h_x hm + real_of_int (fe_path_rad e)) - e_x e)"

text \<open>The \<open>FencingEnemy\<close> that \<open>__spawn_enemy\<close> registers in a fresh session on an 800 x 500
  screen when the draw for the radius gives 15: the home is at (700, 250).\<close>

definition fencing_example :: fencing_enemy where
  "fencing_example =
     \<lparr>e_x = 715, e_y = 265, e_size = 15, e_color = ''orange'',
      fe_obj = Some ''orange'', fe_path_rad = 15, fe_state = MoveUp\<rparr>"

text \<open>What the state machine of a \<open>ChargerEnemy\<close> maintains: the charge timer is an even
  number from 0 to 20, a striking charger has its target, a braking one its heading.\<close>

definition charger_inv :: "charger_enemy \<Rightarrow> bool" where
  "charger_inv e =
     (0 \<le> cg_charge_state e \<and> cg_charge_state e \<le> 20 \<and> cg_charge_state e mod 2 = 0
      \<and> (cg_state e = Strike \<longrightarrow> cg_charge_loc e \<noteq> None)
      \<and> (cg_state e = Break \<longrightarrow> cg_break_deg e \<noteq> None))"

text \<open>The states an instance of any variant can be in: only a \<open>ChargerEnemy\<close> is
  constrained.\<close>

fun obj_inv :: "enemy_obj \<Rightarrow> bool" where
  "obj_inv (Charger c) = charger_inv c"
| "obj_inv e = True"

text \<open>The position of the player after \<open>forward(speed)\<close> on the heading towards the
  waypoint.\<close>

definition advanced :: "game \<Rightarrow> player" where
  "advanced g =
     forward (p_speed (player g))
       (setheading (towards (player g) (w_x (waypoint g)) (w_y (waypoint g))) (player g))"

text \<open>A player inside the home whose waypoint lies 50 to the right, and a player outside
  the home 3 short of its waypoint.\<close>

definition player_at_home :: game where
  "player_at_home =
     (new_game 800 500 1 (\<lambda>n. 0))
       \<lparr>player := \<lparr>p_x = 700, p_y = 250, p_heading = 0, p_speed = 5\<rparr>,
        waypoint := \<lparr>w_x = 750, w_y = 250, w_active = True\<rparr>\<rparr>"

definition player_arriving :: game where
  "player_arriving =
     (new_game 800 500 1 (\<lambda>n. 0))
       \<lparr>player := \<lparr>p_x = 97, p_y = 250, p_heading = 0, p_speed = 5\<rparr>,
        waypoint := \<lparr>w_x = 100, w_y = 250, w_active = True\<rparr>\<rparr>"

text \<open>The session of level 1 on an 800 x 500 screen when every draw gives 0: one
  \<open>RandomWalkEnemy\<close> is registered at (600, 250), and one timer is pending, due at 100,
  to spawn the remaining four.\<close>

definition first_session :: game where
  "first_session =
     \<lparr>level = 1, screen_width = 800, screen_height = 500,
      waypoint = \<lparr>w_x = 0, w_y = 0, w_active = False\<rparr>,
      home = \<lparr>h_x = 700, h_y = 250, h_size = 20\<rparr>,
      player = \<lparr>p_x = 50, p_y = 250, p_heading = 0, p_speed = 5\<rparr>,
      enemies = [],
      elements = [ElWaypoint, ElHome, ElPlayer,
        ElEnemy (RandomWalk \<lparr>e_x = 600, e_y = 250, e_size = 20, e_color = ''red'',
          rw_obj = Some ''red'', rw_speed_x = 0, rw_speed_y = 0\<rparr>)],
      is_running = True,
      timers = [(100, SpawnEnemy RandomWalkEnemy 20 ''red'' 100 4)],
      clock = 0, texts = [], rnd = (\<lambda>n. 0), drawn = 2\<rparr>"

section \<open>Properties\<close>

subsection \<open>Collision test\<close>

text \<open>C8. For an enemy of any variant (any extension of the base record), \<open>hits_player\<close>
  holds exactly when the player's position lies strictly inside the open box of side
  \<open>size\<close> centred at the enemy; a player on the boundary of the box is not hit.\<close>

theorem hits_player_open_box:
  "(hits_player g e \<longleftrightarrow>
      p_x (player g) \<in> {e_x e - real_of_int (e_size e) / 2 <..< e_x e + real_of_int (e_size e) / 2}
    \<and> p_y (player g) \<in> {e_y e - real_of_int (e_size e) / 2 <..< e_y e + real_of_int (e_size e) / 2})
   \<and> \<not> (hits_player g e \<and>
         (\<bar>p_x (player g) - e_x e\<bar> = real_of_int (e_size e) / 2
           \<or> \<bar>p_y (player g) - e_y e\<bar> = real_of_int (e_size e) / 2))"
proof -
  have box: "hits_player g e \<longleftrightarrow>
      p_x (player g) \<in> {e_x e - real_of_int (e_size e) / 2 <..< e_x e + real_of_int (e_size e) / 2}
    \<and> p_y (player g) \<in> {e_y e - real_of_int (e_size e) / 2 <..< e_y e + real_of_int (e_size e) / 2}"
    by (simp add: hits_player_def)
  have "\<bar>p_x (player g) - e_x e\<bar> < real_of_int (e_size e) / 2
      \<and> \<bar>p_y (player g) - e_y e\<bar> < real_of_int (e_size e) / 2" if "hits_player g e"
    using that unfolding hits_player_def by linarith
  then show ?thesis using box by fastforce
qed

subsection \<open>EnemyGenerator: quotas and delays\<close>

lemma same_session_refl [simp]: "same_session g g"
  by (simp add: same_session_def)

lemma same_session_trans: "same_session g g' \<Longrightarrow> same_session g' g'' \<Longrightarrow> same_session g g''"
  by (simp add: same_session_def)

lemma same_session_spawn_ok: "same_session g g' \<Longrightarrow> spawn_ok g' = spawn_ok g"
  by (simp add: same_session_def spawn_ok_def)

lemma randint_ok: "a \<le> b \<Longrightarrow> \<exists>v. randint a b n = Inr v \<and> a \<le> v \<and> v \<le> b"
  by (simp add: randint_def) (smt (verit) pos_mod_bound pos_mod_sign)

lemma instantiate_ok:
  "\<exists>e n. instantiate ty sz col g = Inr (e, g\<lparr>drawn := n\<rparr>) \<and> type_of e = ty
      \<and> obj_size e = sz \<and> obj_color e = col"
proof (cases ty)
  case FencingEnemy
  obtain v where "randint 15 75 (rnd g (drawn g)) = Inr v"
    using randint_ok [of 15 75] by fastforce
  with FencingEnemy show ?thesis
    by (auto simp: fencing_init_def intro!: exI[of _ "Suc (drawn g)"])
next
  case DemoEnemy
  then show ?thesis by (auto simp: enemy_init_def intro!: exI[of _ "drawn g"])
next
  case RandomWalkEnemy
  then show ?thesis by (auto simp: random_walk_init_def intro!: exI[of _ "drawn g"])
next
  case ChasingEnemy
  then show ?thesis by (auto simp: chasing_init_def intro!: exI[of _ "drawn g"])
next
  case ChargerEnemy
  then show ?thesis by (auto simp: charger_init_def intro!: exI[of _ "drawn g"])
qed

lemma spawn_location_ok:
  assumes "spawn_ok g"
  shows "\<exists>loc n. spawn_location g = Inr (loc, g\<lparr>drawn := n\<rparr>)"
proof -
  let ?w = "screen_width g" and ?h = "screen_height g"
  from assms have w: "0 \<le> ?w" and h: "0 \<le> ?h" by (simp_all add: spawn_ok_def)
  have r1: "3 * (?w div 4) \<le> ?w" "0 \<le> 3 * (?w div 4)" using w by auto
  have r2: "?h div 2 \<le> ?h" "0 \<le> ?h div 2" using h by auto
  obtain sx where sx: "(if p_x (player g) \<le> real_of_int ?w / 2
        then randint (3 * (?w div 4)) ?w (rnd g (drawn g))
        else randint 0 (3 * (?w div 4)) (rnd g (drawn g))) = Inr sx"
    using randint_ok [OF r1(1)] randint_ok [OF r1(2)] by (metis (full_types))
  obtain sy where sy: "(if p_y (player g) \<le> real_of_int ?h / 2
        then randint (?h div 2) ?h (rnd g (Suc (drawn g)))
        else randint 0 (?h div 2) (rnd g (Suc (drawn g)))) = Inr sy"
    using randint_ok [OF r2(1)] randint_ok [OF r2(2)] by (metis (full_types))
  show ?thesis unfolding spawn_location_def sx sy by simp blast
qed

lemma type_of_set_pos [simp]: "type_of (set_pos loc e) = type_of e"
  by (cases e) auto

lemma type_of_create [simp]: "type_of (create e) = type_of e"
  by (cases e) auto

lemma obj_spawn_location_ok:
  assumes "spawn_ok g"
  shows "\<exists>loc n. obj_spawn_location g e = Inr (loc, g\<lparr>drawn := n\<rparr>)"
proof (cases e)
  case (Fencing f)
  then show ?thesis by (auto intro!: exI[of _ "drawn g"])
qed (use spawn_location_ok [OF assms] in auto)

lemma spawn_enemy_pos:
  assumes "spawn_ok g" "0 < q"
  shows "\<exists>e n. spawn_enemy ty sz col d q g =
            Inr (after d (SpawnEnemy ty sz col d (q - 1))
                   (add_element (ElEnemy e) (g\<lparr>drawn := n\<rparr>)))
          \<and> type_of e = ty"
proof -
  obtain e n where c: "instantiate ty sz col g = Inr (e, g\<lparr>drawn := n\<rparr>)" and t: "type_of e = ty"
    using instantiate_ok by blast
  have "spawn_ok (g\<lparr>drawn := n\<rparr>)" using assms(1) by (simp add: spawn_ok_def)
  from obj_spawn_location_ok [OF this, of e]
  obtain loc m where l: "obj_spawn_location (g\<lparr>drawn := n\<rparr>) e = Inr (loc, g\<lparr>drawn := m\<rparr>)"
    by auto
  show ?thesis
    using assms(2) c l t
    by (auto simp: spawn_enemy_def intro!: exI[of _ "set_pos loc e"] exI[of _ m])
qed

lemma quota_sum_insert:
  "quota_sum k (insert_timer t ts) =
     (if cb_type (snd t) = k then nat (cb_quota (snd t)) else 0) + quota_sum k ts"
  by (simp add: quota_sum_def sum_insert_timer)

lemma count_type_add_element:
  "count_type k (add_element (ElEnemy e) g) = count_type k g + (if type_of e = k then 1 else 0)"
  by (simp add: count_type_def)

lemma spawn_enemy_eventual:
  assumes "spawn_ok g"
  shows "\<exists>g'. spawn_enemy ty sz col d q g = Inr g' \<and> same_session g g' \<and> clock g' = clock g
          \<and> (\<forall>k. eventual k g' = eventual k g + (if k = ty then nat q else 0))"
proof (cases "0 < q")
  case False
  then show ?thesis by (simp add: spawn_enemy_def)
next
  case True
  from spawn_enemy_pos [OF assms True, of ty sz col d]
  obtain e n where s: "spawn_enemy ty sz col d q g =
            Inr (after d (SpawnEnemy ty sz col d (q - 1))
                   (add_element (ElEnemy e) (g\<lparr>drawn := n\<rparr>)))" and t: "type_of e = ty"
    by blast
  have "same_session g (after d (SpawnEnemy ty sz col d (q - 1))
                   (add_element (ElEnemy e) (g\<lparr>drawn := n\<rparr>)))"
    by (simp add: same_session_def after_def)
  moreover have "eventual k (after d (SpawnEnemy ty sz col d (q - 1))
                   (add_element (ElEnemy e) (g\<lparr>drawn := n\<rparr>)))
        = eventual k g + (if k = ty then nat q else 0)" for k
    using True t
    by (auto simp: eventual_def after_def quota_sum_insert count_type_def nat_diff_distrib)
  ultimately show ?thesis using s by (simp add: after_def)
qed

lemma fire_timer_eventual:
  assumes "spawn_ok g"
  shows "\<exists>g'. fire_timer g = Inr g' \<and> same_session g g' \<and> (\<forall>k. eventual k g' = eventual k g)"
proof (cases "timers g")
  case Nil
  then show ?thesis by (simp add: fire_timer_def)
next
  case (Cons t rest)
  obtain due ty sz col d q where t: "t = (due, SpawnEnemy ty sz col d q)"
    by (cases t, cases "snd t") auto
  let ?g = "g\<lparr>timers := rest, clock := max (clock g) due\<rparr>"
  have ok: "spawn_ok ?g" using assms by (simp add: spawn_ok_def)
  from spawn_enemy_eventual [OF ok, of ty sz col d q]
  obtain g' where s: "spawn_enemy ty sz col d q ?g = Inr g'" and f: "same_session ?g g'"
    and e: "\<And>k. eventual k g' = eventual k ?g + (if k = ty then nat q else 0)"
    by blast
  have "eventual k g' = eventual k g" for k
    using e [of k] Cons t by (simp add: eventual_def quota_sum_def count_type_def)
  moreover have "same_session g g'" using f by (simp add: same_session_def)
  ultimately show ?thesis using s Cons t by (simp add: fire_timer_def)
qed

lemma run_timers_eventual:
  "spawn_ok g \<Longrightarrow>
     \<exists>g'. run_timers g = Inr g' \<and> timers g' = [] \<and> same_session g g'
        \<and> (\<forall>k. count_type k g' = eventual k g)"
proof (induction g rule: run_timers.induct)
  case (1 g)
  show ?case
  proof (cases "timers g = []")
    case True
    then show ?thesis
      by (subst run_timers.simps) (simp add: eventual_def quota_sum_def)
  next
    case False
    from fire_timer_eventual [OF "1.prems"]
    obtain g1 where f: "fire_timer g = Inr g1" and s: "same_session g g1"
      and e: "\<And>k. eventual k g1 = eventual k g" by blast
    have "spawn_ok g1" using s "1.prems" by (simp add: same_session_spawn_ok)
    from "1.IH" [OF False f this]
    obtain g' where "run_timers g1 = Inr g'" "timers g' = []" "same_session g1 g'"
      "\<And>k. count_type k g' = eventual k g1" by blast
    with False f s e show ?thesis
      by (subst run_timers.simps) (auto intro: same_session_trans)
  qed
qed

lemma base_delay_simps [simp]:
  "base_delay RandomWalkEnemy = 10000" "base_delay ChasingEnemy = 20000"
  "base_delay FencingEnemy = 15000" "base_delay ChargerEnemy = 25000"
  by (simp_all add: base_delay_def enemies_type_def)

lemma base_quota_simps [simp]:
  "base_quota RandomWalkEnemy = 5" "base_quota ChasingEnemy = 2"
  "base_quota FencingEnemy = 2" "base_quota ChargerEnemy = 1"
  by (simp_all add: base_quota_def enemies_type_def)

lemma set_insert_timer [simp]: "set (insert_timer t ts) = insert t (set ts)"
  by (induction ts) auto

lemma spawn_enemy_timers:
  assumes "spawn_ok g" "spawn_enemy ty sz col d q g = Inr g'"
  shows "timers g' =
           (if 0 < q then insert_timer (clock g + d, SpawnEnemy ty sz col d (q - 1)) (timers g)
            else timers g)"
proof (cases "0 < q")
  case False
  with assms(2) show ?thesis by (simp add: spawn_enemy_def)
next
  case True
  from spawn_enemy_pos [OF assms(1) True, of ty sz col d] assms(2) True
  show ?thesis by (auto simp: after_def)
qed

lemma spawn_times_eventual:
  "spawn_ok g \<Longrightarrow>
    \<exists>g'. spawn_times n ty sz col d q g = Inr g' \<and> same_session g g' \<and> clock g' = clock g
      \<and> (\<forall>k. eventual k g' = eventual k g + (if k = ty then n * nat q else 0))
      \<and> set (timers g') \<subseteq> insert (clock g + d, SpawnEnemy ty sz col d (q - 1)) (set (timers g))"
proof (induction n arbitrary: g)
  case 0
  then show ?case by auto
next
  case (Suc n)
  from spawn_enemy_eventual [OF Suc.prems, of ty sz col d q]
  obtain g1 where s: "spawn_enemy ty sz col d q g = Inr g1" and f: "same_session g g1"
    and c: "clock g1 = clock g"
    and e: "\<And>k. eventual k g1 = eventual k g + (if k = ty then nat q else 0)" by blast
  have t: "set (timers g1) \<subseteq> insert (clock g + d, SpawnEnemy ty sz col d (q - 1)) (set (timers g))"
    using spawn_enemy_timers [OF Suc.prems s] by auto
  have "spawn_ok g1" using f Suc.prems by (simp add: same_session_spawn_ok)
  from Suc.IH [OF this]
  obtain g' where r: "spawn_times n ty sz col d q g1 = Inr g'" and f': "same_session g1 g'"
    and c': "clock g' = clock g1"
    and e': "\<And>k. eventual k g' = eventual k g1 + (if k = ty then n * nat q else 0)"
    and t': "set (timers g') \<subseteq> insert (clock g1 + d, SpawnEnemy ty sz col d (q - 1)) (set (timers g1))"
    by blast
  have "eventual k g' = eventual k g + (if k = ty then Suc n * nat q else 0)" for k
    using e [of k] e' [of k] by simp
  moreover have "set (timers g') \<subseteq> insert (clock g + d, SpawnEnemy ty sz col d (q - 1)) (set (timers g))"
    using t t' c by auto
  ultimately show ?case
    using s r c c' same_session_trans [OF f f'] by simp
qed

lemma lookup_high_lvl [simp]:
  "lookup (high_lvl x) RandomWalkEnemy = Inr (3 + x)"
  "lookup (high_lvl x) ChasingEnemy = Inr (4 + x)"
  "lookup (high_lvl x) FencingEnemy = Inr (3 + x)"
  "lookup (high_lvl x) ChargerEnemy = Inr (3 + x)"
  by (simp_all add: lookup_def high_lvl_def)

lemma lookup_low_lvl [simp]:
  "lookup low_lvl RandomWalkEnemy = Inr 5"
  "lookup low_lvl ChasingEnemy = Inr 2"
  "lookup low_lvl FencingEnemy = Inr 4"
  "lookup low_lvl ChargerEnemy = Inr 1"
  by (simp_all add: lookup_def low_lvl_def)

lemma create_enemy_high:
  assumes ok: "spawn_ok g" and lv: "4 \<le> level g"
  shows "\<exists>g'. create_enemy g = Inr g' \<and> same_session g g' \<and> clock g' = clock g
     \<and> (\<forall>k. eventual k g' = eventual k g +
            (if k = DemoEnemy then 0
             else nat ((if k = ChasingEnemy then 4 else 3) + level g div 20) * nat (base_quota k)))
     \<and> set (timers g') \<subseteq> set (timers g) \<union> high_timer g ` set enemies_type"
proof -
  let ?m = "1 + level g div 10" and ?x = "level g div 20"
  from spawn_times_eventual [OF ok, of "nat (3 + ?x)" RandomWalkEnemy 20 "''red''" "10000 div ?m" 5]
  obtain g1 where s1: "spawn_times (nat (3 + ?x)) RandomWalkEnemy 20 ''red'' (10000 div ?m) 5 g = Inr g1"
    and f1: "same_session g g1" and c1: "clock g1 = clock g"
    and e1: "\<And>k. eventual k g1 = eventual k g + (if k = RandomWalkEnemy then nat (3 + ?x) * nat 5 else 0)"
    and t1: "set (timers g1) \<subseteq> insert (clock g + 10000 div ?m, SpawnEnemy RandomWalkEnemy 20 ''red'' (10000 div ?m) (5 - 1)) (set (timers g))"
    by blast
  have ok1: "spawn_ok g1" using f1 ok by (simp add: same_session_spawn_ok)
  have l1: "level g1 = level g" using f1 by (simp add: same_session_def)
  from spawn_times_eventual [OF ok1, of "nat (4 + ?x)" ChasingEnemy 10 "''yellow''" "20000 div ?m" 2]
  obtain g2 where s2: "spawn_times (nat (4 + ?x)) ChasingEnemy 10 ''yellow'' (20000 div ?m) 2 g1 = Inr g2"
    and f2: "same_session g1 g2" and c2: "clock g2 = clock g1"
    and e2: "\<And>k. eventual k g2 = eventual k g1 + (if k = ChasingEnemy then nat (4 + ?x) * nat 2 else 0)"
    and t2: "set (timers g2) \<subseteq> insert (clock g1 + 20000 div ?m, SpawnEnemy ChasingEnemy 10 ''yellow'' (20000 div ?m) (2 - 1)) (set (timers g1))"
    by blast
  have ok2: "spawn_ok g2" using f2 ok1 by (simp add: same_session_spawn_ok)
  have l2: "level g2 = level g" using f2 l1 by (simp add: same_session_def)
  from spawn_times_eventual [OF ok2, of "nat (3 + ?x)" FencingEnemy 15 "''orange''" "15000 div ?m" 2]
  obtain g3 where s3: "spawn_times (nat (3 + ?x)) FencingEnemy 15 ''orange'' (15000 div ?m) 2 g2 = Inr g3"
    and f3: "same_session g2 g3" and c3: "clock g3 = clock g2"
    and e3: "\<And>k. eventual k g3 = eventual k g2 + (if k = FencingEnemy then nat (3 + ?x) * nat 2 else 0)"
    and t3: "set (timers g3) \<subseteq> insert (clock g2 + 15000 div ?m, SpawnEnemy FencingEnemy 15 ''orange'' (15000 div ?m) (2 - 1)) (set (timers g2))"
    by blast
  have ok3: "spawn_ok g3" using f3 ok2 by (simp add: same_session_spawn_ok)
  have l3: "level g3 = level g" using f3 l2 by (simp add: same_session_def)
  from spawn_times_eventual [OF ok3, of "nat (3 + ?x)" ChargerEnemy 18 "''navy''" "25000 div ?m" 1]
  obtain g4 where s4: "spawn_times (nat (3 + ?x)) ChargerEnemy 18 ''navy'' (25000 div ?m) 1 g3 = Inr g4"
    and f4: "same_session g3 g4" and c4: "clock g4 = clock g3"
    and e4: "\<And>k. eventual k g4 = eventual k g3 + (if k = ChargerEnemy then nat (3 + ?x) * nat 1 else 0)"
    and t4: "set (timers g4) \<subseteq> insert (clock g3 + 25000 div ?m, SpawnEnemy ChargerEnemy 18 ''navy'' (25000 div ?m) (1 - 1)) (set (timers g3))"
    by blast
  have run: "create_enemy g = Inr g4"
    using lv s1 s2 s3 s4 l1 l2 l3 by (simp add: create_enemy_def enemies_type_def)
  have fr: "same_session g g4"
    using f1 f2 f3 f4 by (simp add: same_session_def)
  have ev: "eventual k g4 = eventual k g +
            (if k = DemoEnemy then 0
             else nat ((if k = ChasingEnemy then 4 else 3) + level g div 20) * nat (base_quota k))" for k
    using e1 [of k] e2 [of k] e3 [of k] e4 [of k] by (cases k) simp_all
  have tm: "set (timers g4) \<subseteq> set (timers g) \<union> high_timer g ` set enemies_type"
    using t1 t2 t3 t4 c1 c2 c3 by (auto simp: high_timer_def enemies_type_def)
  show ?thesis using run fr ev tm c1 c2 c3 c4 by simp
qed

lemma create_enemy_level_1:
  assumes ok: "spawn_ok g" and lv: "level g = 1"
  shows "\<exists>g'. create_enemy g = Inr g' \<and> same_session g g' \<and> clock g' = clock g
     \<and> (\<forall>k. eventual k g' = eventual k g + (if k = RandomWalkEnemy then 5 else 0))"
proof -
  from spawn_enemy_eventual [OF ok, of RandomWalkEnemy 20 "''red''" 100 5]
  obtain g' where "spawn_enemy RandomWalkEnemy 20 ''red'' 100 5 g = Inr g'" "same_session g g'"
    "clock g' = clock g" "\<And>k. eventual k g' = eventual k g + (if k = RandomWalkEnemy then nat 5 else 0)"
    by blast
  then show ?thesis using lv by (simp add: create_enemy_def enemies_type_def)
qed

lemma eventual_no_timers: "timers g = [] \<Longrightarrow> eventual k g = count_type k g"
  by (simp add: eventual_def quota_sum_def)

text \<open>C7. A generator of level 1, on a screen of non-negative size and with no timer
  pending, followed by all the timer firings it causes, registers exactly 5
  \<open>RandomWalkEnemy\<close> instances and no enemy of any other class. Every chain started by
  \<open>__spawn_enemy\<close> with quota \<open>q\<close> registers exactly \<open>q\<close> enemies of its class and none of
  another, leaves no timer pending, and a callback with quota 0 does nothing.\<close>

theorem level_1_spawns_five_random_walkers:
  assumes "level g = 1" "0 \<le> screen_width g" "0 \<le> screen_height g" "timers g = []"
  shows "(\<exists>g1 g2. create_enemy g = Inr g1 \<and> run_timers g1 = Inr g2 \<and> timers g2 = []
            \<and> count_type RandomWalkEnemy g2 = count_type RandomWalkEnemy g + 5
            \<and> (\<forall>k. k \<noteq> RandomWalkEnemy \<longrightarrow> count_type k g2 = count_type k g))
       \<and> (\<forall>ty sz col d q. \<exists>h1 h2.
              spawn_enemy ty sz col d q g = Inr h1 \<and> run_timers h1 = Inr h2 \<and> timers h2 = []
            \<and> count_type ty h2 = count_type ty g + nat q
            \<and> (\<forall>k. k \<noteq> ty \<longrightarrow> count_type k h2 = count_type k g)
            \<and> spawn_enemy ty sz col d 0 h2 = Inr h2)"
proof (intro conjI allI)
  have ok: "spawn_ok g" using assms by (simp add: spawn_ok_def)
  from create_enemy_level_1 [OF ok assms(1)]
  obtain g1 where c: "create_enemy g = Inr g1" and f: "same_session g g1"
    and e: "\<And>k. eventual k g1 = eventual k g + (if k = RandomWalkEnemy then 5 else 0)" by blast
  have "spawn_ok g1" using f ok by (simp add: same_session_spawn_ok)
  from run_timers_eventual [OF this]
  obtain g2 where r: "run_timers g1 = Inr g2" and t: "timers g2 = []"
    and n: "\<And>k. count_type k g2 = eventual k g1" by blast
  have "count_type k g2 = count_type k g + (if k = RandomWalkEnemy then 5 else 0)" for k
    using n [of k] e [of k] eventual_no_timers [OF assms(4)] by simp
  then show "\<exists>g1 g2. create_enemy g = Inr g1 \<and> run_timers g1 = Inr g2 \<and> timers g2 = []
            \<and> count_type RandomWalkEnemy g2 = count_type RandomWalkEnemy g + 5
            \<and> (\<forall>k. k \<noteq> RandomWalkEnemy \<longrightarrow> count_type k g2 = count_type k g)"
    using c r t by simp
next
  fix ty sz col d q
  have ok: "spawn_ok g" using assms by (simp add: spawn_ok_def)
  from spawn_enemy_eventual [OF ok, of ty sz col d q]
  obtain h1 where c: "spawn_enemy ty sz col d q g = Inr h1" and f: "same_session g h1"
    and e: "\<And>k. eventual k h1 = eventual k g + (if k = ty then nat q else 0)" by blast
  have "spawn_ok h1" using f ok by (simp add: same_session_spawn_ok)
  from run_timers_eventual [OF this]
  obtain h2 where r: "run_timers h1 = Inr h2" and t: "timers h2 = []"
    and n: "\<And>k. count_type k h2 = eventual k h1" by blast
  have "count_type k h2 = count_type k g + (if k = ty then nat q else 0)" for k
    using n [of k] e [of k] eventual_no_timers [OF assms(4)] by simp
  then show "\<exists>h1 h2. spawn_enemy ty sz col d q g = Inr h1 \<and> run_timers h1 = Inr h2 \<and> timers h2 = []
            \<and> count_type ty h2 = count_type ty g + nat q
            \<and> (\<forall>k. k \<noteq> ty \<longrightarrow> count_type k h2 = count_type k g)
            \<and> spawn_enemy ty sz col d 0 h2 = Inr h2"
    using c r t by (simp add: spawn_enemy_def)
qed

text \<open>The level-1 session of an 800 x 500 screen.\<close>

theorem level_1_witness:
  "level (new_game 800 500 1 (\<lambda>n. 0)) = 1
   \<and> total_spawned RandomWalkEnemy (new_game 800 500 1 (\<lambda>n. 0)) = Inr 5
   \<and> total_spawned ChasingEnemy (new_game 800 500 1 (\<lambda>n. 0)) = Inr 0"
proof -
  let ?g = "new_game 800 500 1 (\<lambda>n. 0)"
  have h: "level ?g = 1" "0 \<le> screen_width ?g" "0 \<le> screen_height ?g" "timers ?g = []"
    by (simp_all add: new_game_def)
  have c: "count_type RandomWalkEnemy ?g = 0" "count_type ChasingEnemy ?g = 0"
    by (simp_all add: new_game_def count_type_def)
  from level_1_spawns_five_random_walkers [OF h] c h(1)
  show ?thesis by (auto simp: total_spawned_def)
qed

lemma high_timer_props:
  assumes "t \<in> high_timer g ` set enemies_type"
  shows "cb_delay (snd t) = base_delay (cb_type (snd t)) div (1 + level g div 10)
       \<and> fst t = clock g + cb_delay (snd t)
       \<and> cb_quota (snd t) = base_quota (cb_type (snd t)) - 1"
  using assms by (auto simp: high_timer_def enemies_type_def)

text \<open>C2 (amended). For every level of at least 4 (the number of classes in the table), on
  a screen of non-negative size and with no timer pending, the generator introduces all
  four classes. It starts \<open>n + level // 20\<close> chains per class, with \<open>n\<close> = 3, 4, 3, 3 for
  RandomWalk, Chasing, Fencing, Charger, and each chain has the table's quota (5, 2, 2, 1):
  the enemies registered in the end are the product of the two per class. Every timer
  the generator schedules carries the class's table delay floor-divided by
  \<open>1 + level // 10\<close>, is due that long after the generator ran, and has the table's quota
  less one left.\<close>

theorem high_level_spawn_totals:
  assumes "4 \<le> level g" "0 \<le> screen_width g" "0 \<le> screen_height g" "timers g = []"
  shows "\<exists>g1 g2. create_enemy g = Inr g1 \<and> run_timers g1 = Inr g2 \<and> timers g2 = []
      \<and> count_type RandomWalkEnemy g2 = count_type RandomWalkEnemy g + nat (3 + level g div 20) * 5
      \<and> count_type ChasingEnemy g2 = count_type ChasingEnemy g + nat (4 + level g div 20) * 2
      \<and> count_type FencingEnemy g2 = count_type FencingEnemy g + nat (3 + level g div 20) * 2
      \<and> count_type ChargerEnemy g2 = count_type ChargerEnemy g + nat (3 + level g div 20) * 1
      \<and> count_type DemoEnemy g2 = count_type DemoEnemy g
      \<and> (\<forall>t \<in> set (timers g1).
            cb_delay (snd t) = base_delay (cb_type (snd t)) div (1 + level g div 10)
          \<and> fst t = clock g + cb_delay (snd t)
          \<and> cb_quota (snd t) = base_quota (cb_type (snd t)) - 1)"
proof -
  have ok: "spawn_ok g" using assms by (simp add: spawn_ok_def)
  from create_enemy_high [OF ok assms(1)]
  obtain g1 where c: "create_enemy g = Inr g1" and f: "same_session g g1"
    and e: "\<And>k. eventual k g1 = eventual k g +
            (if k = DemoEnemy then 0
             else nat ((if k = ChasingEnemy then 4 else 3) + level g div 20) * nat (base_quota k))"
    and t: "set (timers g1) \<subseteq> set (timers g) \<union> high_timer g ` set enemies_type"
    by blast
  have "spawn_ok g1" using f ok by (simp add: same_session_spawn_ok)
  from run_timers_eventual [OF this]
  obtain g2 where r: "run_timers g1 = Inr g2" and t2: "timers g2 = []"
    and n: "\<And>k. count_type k g2 = eventual k g1" by blast
  have cnt: "count_type k g2 = count_type k g +
            (if k = DemoEnemy then 0
             else nat ((if k = ChasingEnemy then 4 else 3) + level g div 20) * nat (base_quota k))" for k
    using n [of k] e [of k] eventual_no_timers [OF assms(4)] by simp
  have tm: "\<forall>t \<in> set (timers g1).
            cb_delay (snd t) = base_delay (cb_type (snd t)) div (1 + level g div 10)
          \<and> fst t = clock g + cb_delay (snd t)
          \<and> cb_quota (snd t) = base_quota (cb_type (snd t)) - 1"
    using t assms(4) high_timer_props [of _ g] by auto
  show ?thesis
    using c r t2 tm cnt [of RandomWalkEnemy] cnt [of ChasingEnemy] cnt [of FencingEnemy]
      cnt [of ChargerEnemy] cnt [of DemoEnemy]
    by simp
qed

text \<open>Level 25 on an 800 x 500 screen: 4 * 5, 5 * 2, 4 * 2 and 4 * 1 enemies.\<close>

theorem high_level_witness:
  "total_spawned RandomWalkEnemy (new_game 800 500 25 (\<lambda>n. 0)) = Inr 20
   \<and> total_spawned ChasingEnemy (new_game 800 500 25 (\<lambda>n. 0)) = Inr 10
   \<and> total_spawned FencingEnemy (new_game 800 500 25 (\<lambda>n. 0)) = Inr 8
   \<and> total_spawned ChargerEnemy (new_game 800 500 25 (\<lambda>n. 0)) = Inr 4"
proof -
  let ?g = "new_game 800 500 25 (\<lambda>n. 0)"
  have h: "4 \<le> level ?g" "0 \<le> screen_width ?g" "0 \<le> screen_height ?g" "timers ?g = []"
    by (simp_all add: new_game_def)
  have c: "count_type k ?g = 0" "level ?g = 25" for k
    by (simp_all add: new_game_def count_type_def)
  from high_level_spawn_totals [OF h]
  show ?thesis by (auto simp: total_spawned_def c)
qed

text \<open>At level 25 the generator registers 20 \<open>RandomWalkEnemy\<close> instances, not the table's
  quota plus \<open>25 // 20\<close>, which is 6.\<close>

theorem level_25_quota_counterexample:
  "total_spawned RandomWalkEnemy (new_game 800 500 25 (\<lambda>n. 0)) = Inr 20
   \<and> total_spawned RandomWalkEnemy (new_game 800 500 25 (\<lambda>n. 0))
       \<noteq> Inr (nat (base_quota RandomWalkEnemy + 25 div 20))"
proof -
  let ?g = "new_game 800 500 25 (\<lambda>n. 0)"
  have ok: "spawn_ok ?g" and lv: "4 \<le> level ?g" and nt: "timers ?g = []"
    by (simp_all add: new_game_def spawn_ok_def)
  have c: "count_type k ?g = 0" "level ?g = 25" for k
    by (simp_all add: new_game_def count_type_def)
  from create_enemy_high [OF ok lv]
  obtain g1 where g1: "create_enemy ?g = Inr g1" and f: "same_session ?g g1"
    and e: "eventual RandomWalkEnemy g1 = eventual RandomWalkEnemy ?g + 20"
    by (auto simp: c)
  have "spawn_ok g1" using f ok by (simp add: same_session_spawn_ok)
  from run_timers_eventual [OF this]
  obtain g2 where "run_timers g1 = Inr g2" "count_type RandomWalkEnemy g2 = eventual RandomWalkEnemy g1"
    by blast
  with g1 e show ?thesis
    by (simp add: total_spawned_def eventual_no_timers [OF nt] c)
qed

subsection \<open>FencingEnemy: the patrol\<close>

lemma fencing_state_call_inv:
  "fencing_inv (home g) e \<Longrightarrow> fencing_inv (home g) (fencing_state_call g e)"
  by (cases "fe_state e")
     (auto simp: fencing_state_call_def fencing_inv_def move_up_def move_left_def move_down_def move_right_def
        fe_speed_def Let_def)

lemma fencing_state_call_rad [simp]:
  "fe_path_rad (fencing_state_call g e) = fe_path_rad e"
  by (cases "fe_state e")
     (auto simp: fencing_state_call_def move_up_def move_left_def move_down_def move_right_def Let_def)

lemma fencing_state_call_order:
  "fe_state (fencing_state_call g e) = fe_state e
   \<or> fe_state (fencing_state_call g e) = next_state (fe_state e)"
  by (cases "fe_state e")
     (auto simp: fencing_state_call_def move_up_def move_left_def move_down_def move_right_def Let_def)

lemma fencing_state_call_home:
  "home g = home g' \<Longrightarrow> fencing_state_call g e = fencing_state_call g' e"
  by (cases "fe_state e")
     (auto simp: fencing_state_call_def move_up_def move_left_def move_down_def move_right_def Let_def)

lemma update_fencing [simp]:
  "update g (Fencing e) =
     Inr (Fencing (fencing_state_call g e),
          if hits_player g (fencing_state_call g e) then game_over_lose g else g)"
  by (simp add: update.simps fencing_update_def Let_def)

lemma fencing_inv_bound:
  "fencing_inv hm e \<Longrightarrow>
     \<bar>e_x e - h_x hm\<bar> \<le> real_of_int (fe_path_rad e) + 3
   \<and> \<bar>e_y e - h_y hm\<bar> \<le> real_of_int (fe_path_rad e) + 3"
  by (cases "fe_state e") (auto simp: fencing_inv_def Let_def)

lemma updates_fencing_inv:
  "fencing_inv hm e \<Longrightarrow> \<forall>g \<in> set gs. home g = hm \<Longrightarrow>
     \<exists>e'. updates gs (Fencing e) = Inr (Fencing e') \<and> fencing_inv hm e'
        \<and> fe_path_rad e' = fe_path_rad e"
proof (induction gs arbitrary: e)
  case Nil
  then show ?case by simp
next
  case (Cons g gs)
  have "fencing_inv hm (fencing_state_call g e)"
    using fencing_state_call_inv [of g e] Cons.prems by simp
  from Cons.IH [OF this] Cons.prems(2) show ?case by simp
qed

lemma updates_fencing_home:
  "\<forall>g \<in> set gs. home g = home g0 \<Longrightarrow>
     updates gs (Fencing e) = updates (replicate (length gs) g0) (Fencing e)"
proof (induction gs arbitrary: e)
  case Nil
  then show ?case by simp
next
  case (Cons g gs)
  then show ?case using fencing_state_call_home [of g g0 e] by simp
qed

lemma fencing_progress_aux:
  "fencing_gap (home g) e < 3 * real n \<Longrightarrow>
     \<exists>k e'. updates (replicate (Suc k) g) (Fencing e) = Inr (Fencing e')
        \<and> fe_state e' = next_state (fe_state e)"
proof (induction n arbitrary: e)
  case 0
  have "fe_state (fencing_state_call g e) = next_state (fe_state e)"
    using 0 by (cases "fe_state e")
      (auto simp: fencing_state_call_def fencing_gap_def move_up_def move_left_def move_down_def move_right_def
         fe_speed_def Let_def)
  then show ?case by (intro exI[of _ 0]) simp
next
  case (Suc n)
  show ?case
  proof (cases "fe_state (fencing_state_call g e) = next_state (fe_state e)")
    case True
    then show ?thesis by (intro exI[of _ 0]) simp
  next
    case False
    then have st: "fe_state (fencing_state_call g e) = fe_state e"
      using fencing_state_call_order [of g e] by simp
    have "fencing_gap (home g) (fencing_state_call g e) = fencing_gap (home g) e - 3"
      using False by (cases "fe_state e")
        (auto simp: fencing_state_call_def fencing_gap_def move_up_def move_left_def move_down_def move_right_def
           fe_speed_def Let_def split: if_splits)
    with Suc.prems have "fencing_gap (home g) (fencing_state_call g e) < 3 * real n" by simp
    from Suc.IH [OF this] obtain k e' where
      "updates (replicate (Suc k) g) (Fencing (fencing_state_call g e)) = Inr (Fencing e')"
      "fe_state e' = next_state (fe_state (fencing_state_call g e))" by blast
    then show ?thesis using st by (intro exI[of _ "Suc k"]) simp
  qed
qed

lemma fencing_progress:
  "\<exists>k e'. updates (replicate (Suc k) g) (Fencing e) = Inr (Fencing e')
        \<and> fe_state e' = next_state (fe_state e)"
proof -
  obtain n where "fencing_gap (home g) e / 3 < real n"
    using reals_Archimedean2 by blast
  then have "fencing_gap (home g) e < 3 * real n" by simp
  then show ?thesis by (rule fencing_progress_aux)
qed

lemma fencing_example_spawned:
  "map_sum id (\<lambda>g. last (elements g))
     (spawn_enemy FencingEnemy 15 ''orange'' 5000 2 (new_game 800 500 4 (\<lambda>n. 0)))
   = Inr (ElEnemy (Fencing fencing_example))"
  by (simp add: spawn_enemy_def fencing_init_def randint_def new_game_def home_init_def
      fencing_spawn_location_def after_def fencing_example_def)

lemma spawn_enemy_fencing:
  assumes "0 < q"
  shows "\<exists>g' e. spawn_enemy FencingEnemy sz col d q g = Inr g'
       \<and> elements g' = elements g @ [ElEnemy (Fencing e)]
       \<and> 15 \<le> fe_path_rad e \<and> fe_path_rad e \<le> 75
       \<and> e_x e = h_x (home g) + real_of_int (fe_path_rad e)
       \<and> e_y e = h_y (home g) + real_of_int (fe_path_rad e)
       \<and> fe_state e = MoveUp \<and> e_size e = sz \<and> e_color e = col"
proof -
  obtain v where v: "randint 15 75 (rnd g (drawn g)) = Inr v" "15 \<le> v" "v \<le> 75"
    using randint_ok [of 15 75 "rnd g (drawn g)"] by auto
  with assms show ?thesis
    by (simp add: spawn_enemy_def fencing_init_def fencing_spawn_location_def after_def)
qed

lemma fencing_state_call_exact:
  "(case fe_state e of
      MoveUp \<Rightarrow>
        e_x (fencing_state_call g e) = e_x e \<and> e_y (fencing_state_call g e) = e_y e - fe_speed
        \<and> fe_state (fencing_state_call g e) =
            (if e_y e - fe_speed < h_y (home g) - real_of_int (fe_path_rad e)
             then MoveLeft else MoveUp)
    | MoveLeft \<Rightarrow>
        e_x (fencing_state_call g e) = e_x e - fe_speed \<and> e_y (fencing_state_call g e) = e_y e
        \<and> fe_state (fencing_state_call g e) =
            (if e_x e - fe_speed < h_x (home g) - real_of_int (fe_path_rad e)
             then MoveDown else MoveLeft)
    | MoveDown \<Rightarrow>
        e_x (fencing_state_call g e) = e_x e \<and> e_y (fencing_state_call g e) = e_y e + fe_speed
        \<and> fe_state (fencing_state_call g e) =
            (if e_y e + fe_speed > h_y (home g) + real_of_int (fe_path_rad e)
             then MoveRight else MoveDown)
    | MoveRight \<Rightarrow>
        e_x (fencing_state_call g e) = e_x e + fe_speed \<and> e_y (fencing_state_call g e) = e_y e
        \<and> fe_state (fencing_state_call g e) =
            (if e_x e + fe_speed > h_x (home g) + real_of_int (fe_path_rad e)
             then MoveUp else MoveRight))"
  by (cases "fe_state e")
     (simp_all add: fencing_state_call_def move_up_def move_left_def move_down_def
        move_right_def Let_def)

lemma fencing_inv_outside:
  assumes "fencing_inv hm e"
  shows "(fe_state e = MoveLeft \<longrightarrow> e_y e < h_y hm - real_of_int (fe_path_rad e))
       \<and> (fe_state e = MoveDown \<longrightarrow> e_x e < h_x hm - real_of_int (fe_path_rad e))
       \<and> (fe_state e = MoveRight \<longrightarrow> h_y hm + real_of_int (fe_path_rad e) < e_y e)"
  using assms by (cases "fe_state e") (auto simp: fencing_inv_def Let_def)

lemma fencing_leaves_square:
  assumes "fencing_inv hm e" "fe_state e = MoveUp" "home g = hm"
  shows "\<exists>k f. updates (replicate (Suc k) g) (Fencing e) = Inr (Fencing f)
       \<and> fe_state f = MoveLeft \<and> e_y f < h_y hm - real_of_int (fe_path_rad e)"
proof -
  from fencing_progress [of g e] assms(2) obtain k f where
    u: "updates (replicate (Suc k) g) (Fencing e) = Inr (Fencing f)"
    and s: "fe_state f = MoveLeft" by auto
  have "\<forall>g' \<in> set (replicate (Suc k) g). home g' = hm" using assms(3) by simp
  from updates_fencing_inv [OF assms(1) this] u
  have "fencing_inv hm f" "fe_path_rad f = fe_path_rad e" by auto
  with fencing_inv_outside [of hm f] s u show ?thesis by auto
qed

text \<open>C6 (amended). A \<open>FencingEnemy\<close> that starts at \<open>home + (patrol_radius, patrol_radius)\<close>
  in state move-up, updated any number of times while the home stays where it is:
  \<^item> every update moves it by its step 3 along the axis of its state (up, left, down,
    right), and changes the state, to the next of the cycle up, left, down, right, up,
    exactly when the new position has crossed \<open>home - patrol_radius\<close> (up, left) or
    \<open>home + patrol_radius\<close> (down, right); otherwise the state stays;
  \<^item> from every state it reaches, the next state of the cycle is reached after finitely
    many updates;
  \<^item> it is within \<open>patrol_radius + 3\<close> of the home on both axes;
  \<^item> it does leave the square \<open>home +- patrol_radius\<close>: while it moves left it is above
    the square, while it moves down it is left of it, while it moves right it is below it,
    and from its start it reaches such a state.\<close>

theorem fencing_patrol:
  assumes "0 \<le> fe_path_rad e"
    and "e_x e = h_x hm + real_of_int (fe_path_rad e)"
    and "e_y e = h_y hm + real_of_int (fe_path_rad e)"
    and "fe_state e = MoveUp"
    and "\<forall>g \<in> set gs. home g = hm"
  shows "(\<exists>e'. updates gs (Fencing e) = Inr (Fencing e')
      \<and> fe_path_rad e' = fe_path_rad e
      \<and> \<bar>e_x e' - h_x hm\<bar> \<le> real_of_int (fe_path_rad e) + fe_speed
      \<and> \<bar>e_y e' - h_y hm\<bar> \<le> real_of_int (fe_path_rad e) + fe_speed
      \<and> (fe_state e' = MoveLeft \<longrightarrow> e_y e' < h_y hm - real_of_int (fe_path_rad e))
      \<and> (fe_state e' = MoveDown \<longrightarrow> e_x e' < h_x hm - real_of_int (fe_path_rad e))
      \<and> (fe_state e' = MoveRight \<longrightarrow> h_y hm + real_of_int (fe_path_rad e) < e_y e')
      \<and> (\<forall>g. home g = hm \<longrightarrow>
            (\<exists>f g'. update g (Fencing e') = Inr (Fencing f, g')
               \<and> (case fe_state e' of
                     MoveUp \<Rightarrow>
                       e_x f = e_x e' \<and> e_y f = e_y e' - fe_speed
                       \<and> fe_state f =
                           (if e_y f < h_y hm - real_of_int (fe_path_rad e)
                            then MoveLeft else MoveUp)
                   | MoveLeft \<Rightarrow>
                       e_x f = e_x e' - fe_speed \<and> e_y f = e_y e'
                       \<and> fe_state f =
                           (if e_x f < h_x hm - real_of_int (fe_path_rad e)
                            then MoveDown else MoveLeft)
                   | MoveDown \<Rightarrow>
                       e_x f = e_x e' \<and> e_y f = e_y e' + fe_speed
                       \<and> fe_state f =
                           (if h_y hm + real_of_int (fe_path_rad e) < e_y f
                            then MoveRight else MoveDown)
                   | MoveRight \<Rightarrow>
                       e_x f = e_x e' + fe_speed \<and> e_y f = e_y e'
                       \<and> fe_state f =
                           (if h_x hm + real_of_int (fe_path_rad e) < e_x f
                            then MoveUp else MoveRight))))
      \<and> (\<forall>g. \<exists>f g'. update g (Fencing e') = Inr (Fencing f, g')
              \<and> (fe_state f = fe_state e' \<or> fe_state f = next_state (fe_state e')))
      \<and> (\<forall>g. \<exists>k f. updates (replicate (Suc k) g) (Fencing e') = Inr (Fencing f)
              \<and> fe_state f = next_state (fe_state e')))
    \<and> (\<forall>g. home g = hm \<longrightarrow>
          (\<exists>k f. updates (replicate (Suc k) g) (Fencing e) = Inr (Fencing f)
             \<and> fe_state f = MoveLeft \<and> e_y f < h_y hm - real_of_int (fe_path_rad e)))"
proof -
  have i0: "fencing_inv hm e" using assms(1-4) by (simp add: fencing_inv_def)
  from updates_fencing_inv [OF this assms(5)]
  obtain e' where u: "updates gs (Fencing e) = Inr (Fencing e')" and i: "fencing_inv hm e'"
    and r: "fe_path_rad e' = fe_path_rad e" by blast
  have b: "\<bar>e_x e' - h_x hm\<bar> \<le> real_of_int (fe_path_rad e) + fe_speed"
      "\<bar>e_y e' - h_y hm\<bar> \<le> real_of_int (fe_path_rad e) + fe_speed"
    using fencing_inv_bound [OF i] r by (simp_all add: fe_speed_def)
  have o: "fe_state e' = MoveLeft \<longrightarrow> e_y e' < h_y hm - real_of_int (fe_path_rad e)"
      "fe_state e' = MoveDown \<longrightarrow> e_x e' < h_x hm - real_of_int (fe_path_rad e)"
      "fe_state e' = MoveRight \<longrightarrow> h_y hm + real_of_int (fe_path_rad e) < e_y e'"
    using fencing_inv_outside [OF i] r by simp_all
  have x: "\<exists>f g'. update g (Fencing e') = Inr (Fencing f, g')
               \<and> (case fe_state e' of
                     MoveUp \<Rightarrow>
                       e_x f = e_x e' \<and> e_y f = e_y e' - fe_speed
                       \<and> fe_state f =
                           (if e_y f < h_y hm - real_of_int (fe_path_rad e)
                            then MoveLeft else MoveUp)
                   | MoveLeft \<Rightarrow>
                       e_x f = e_x e' - fe_speed \<and> e_y f = e_y e'
                       \<and> fe_state f =
                           (if e_x f < h_x hm - real_of_int (fe_path_rad e)
                            then MoveDown else MoveLeft)
                   | MoveDown \<Rightarrow>
                       e_x f = e_x e' \<and> e_y f = e_y e' + fe_speed
                       \<and> fe_state f =
                           (if h_y hm + real_of_int (fe_path_rad e) < e_y f
                            then MoveRight else MoveDown)
                   | MoveRight \<Rightarrow>
                       e_x f = e_x e' + fe_speed \<and> e_y f = e_y e'
                       \<and> fe_state f =
                           (if h_x hm + real_of_int (fe_path_rad e) < e_x f
                            then MoveUp else MoveRight))"
    if "home g = hm" for g
    using fencing_state_call_exact [where e = e' and g = g] that r
    by (cases "fe_state e'") simp_all
  have c: "\<exists>f g'. update g (Fencing e') = Inr (Fencing f, g')
              \<and> (fe_state f = fe_state e' \<or> fe_state f = next_state (fe_state e'))" for g
    using fencing_state_call_order [of g e'] by simp
  have p: "\<exists>k f. updates (replicate (Suc k) g) (Fencing e') = Inr (Fencing f)
              \<and> fe_state f = next_state (fe_state e')" for g
    by (rule fencing_progress)
  have l: "\<exists>k f. updates (replicate (Suc k) g) (Fencing e) = Inr (Fencing f)
             \<and> fe_state f = MoveLeft \<and> e_y f < h_y hm - real_of_int (fe_path_rad e)"
    if "home g = hm" for g
    using fencing_leaves_square [OF i0 assms(4) that] .
  show ?thesis using u r b o x c p l by blast
qed

text \<open>Eleven updates of the example enemy.\<close>

theorem fencing_patrol_witness:
  "\<exists>e'. updates (replicate 11 (new_game 800 500 4 (\<lambda>n. 0))) (Fencing fencing_example)
           = Inr (Fencing e')
      \<and> \<bar>e_x e' - 700\<bar> \<le> 18 \<and> \<bar>e_y e' - 250\<bar> \<le> 18"
proof -
  let ?g = "new_game 800 500 4 (\<lambda>n. 0)"
  have h: "0 \<le> fe_path_rad fencing_example"
    "e_x fencing_example = h_x (home ?g) + real_of_int (fe_path_rad fencing_example)"
    "e_y fencing_example = h_y (home ?g) + real_of_int (fe_path_rad fencing_example)"
    "fe_state fencing_example = MoveUp"
    "\<forall>g \<in> set (replicate 11 ?g). home g = home ?g"
    by (simp_all add: fencing_example_def new_game_def home_init_def)
  have v: "h_x (home ?g) = 700" "h_y (home ?g) = 250" "fe_path_rad fencing_example = 15"
    by (simp_all add: fencing_example_def new_game_def home_init_def)
  from fencing_patrol [OF h] show ?thesis
    unfolding v fe_speed_def by auto
qed

text \<open>After eleven updates the example enemy is at \<open>y = 232\<close>, above the square
  \<open>home +- patrol_radius\<close>, whose upper edge is at \<open>y = 235\<close>.\<close>

theorem fencing_leaves_square_counterexample:
  "updates (replicate 11 (new_game 800 500 4 (\<lambda>n. 0))) (Fencing fencing_example)
     = Inr (Fencing (fencing_example\<lparr>e_y := 232, fe_state := MoveLeft\<rparr>))
   \<and> (232 :: real) < h_y (home (new_game 800 500 4 (\<lambda>n. 0)))
                        - real_of_int (fe_path_rad fencing_example)"
  by (simp add: numeral_eq_Suc fencing_state_call_def move_up_def fe_speed_def
      fencing_example_def new_game_def home_init_def Let_def)

subsection \<open>ChargerEnemy: the state machine\<close>

lemma max_key_charge_col [simp]: "max_key cg_charge_col = 20"
  by (simp add: max_key_def cg_charge_col_def)

lemma lookup_charge_col:
  "lookup (map_of cg_charge_col) 0 = Inr ''red''"
  "lookup (map_of cg_charge_col) 10 = Inr ''yellow''"
  "lookup (map_of cg_charge_col) 20 = Inr ''green''"
  by (simp_all add: lookup_def cg_charge_col_def)

lemma charger_init_inv: "charger_inv (charger_init sz col)"
  by (simp add: charger_inv_def charger_init_def)

lemma cg_hunt_step:
  "cg_state (cg_hunt g e) =
     (if sqrt ((p_x (player g) - e_x e)\<^sup>2 + (p_y (player g) - e_y e)\<^sup>2) \<le> 150
      then Charge else cg_state e)"
  "cg_charge_state (cg_hunt g e) = cg_charge_state e"
  "cg_charge_loc (cg_hunt g e) = cg_charge_loc e"
  "cg_break_deg (cg_hunt g e) = cg_break_deg e"
  "cg_speed (cg_hunt g e) = cg_speed e"
  "cg_obj (cg_hunt g e) = cg_obj e"
  by (simp_all add: cg_hunt_def cg_charge_rad_def Let_def)

lemma charge_state_cases:
  assumes "0 \<le> (c::int)" "c \<le> 20" "c mod 2 = 0" "c mod 10 = 0"
  shows "c = 0 \<or> c = 10 \<or> c = 20"
  using assms by presburger

lemma cg_charge_step:
  assumes "charger_inv e"
  shows "\<exists>e'. cg_charge g e = Inr e'
     \<and> cg_state e' = (if 20 < cg_charge_state e + 2 then Strike else cg_state e)
     \<and> cg_charge_state e' = (if 20 < cg_charge_state e + 2 then 0 else cg_charge_state e + 2)
     \<and> cg_charge_loc e' =
         (if 20 < cg_charge_state e + 2 then Some (p_x (player g), p_y (player g))
          else cg_charge_loc e)
     \<and> cg_speed e' = (if 20 < cg_charge_state e + 2 then 25 else cg_speed e)
     \<and> cg_break_deg e' = cg_break_deg e
     \<and> e_x e' = e_x e \<and> e_y e' = e_y e \<and> e_size e' = e_size e \<and> e_color e' = e_color e
     \<and> cg_obj e' =
         (if cg_charge_state e = 0 then itemconfigure (cg_obj e) ''red''
          else if cg_charge_state e = 10 then itemconfigure (cg_obj e) ''yellow''
          else if cg_charge_state e = 20 then itemconfigure (cg_obj e) ''green''
          else cg_obj e)"
proof (cases "cg_charge_state e mod 10 = 0")
  case True
  with assms have "cg_charge_state e = 0 \<or> cg_charge_state e = 10 \<or> cg_charge_state e = 20"
    using charge_state_cases [of "cg_charge_state e"] by (simp add: charger_inv_def)
  then show ?thesis
    by (auto simp: cg_charge_def lookup_charge_col cg_charge_speed_def cg_strike_speed_def)
next
  case False
  then have "cg_charge_state e \<noteq> 0" "cg_charge_state e \<noteq> 10" "cg_charge_state e \<noteq> 20"
    by auto
  with False show ?thesis
    by (simp add: cg_charge_def cg_charge_speed_def cg_strike_speed_def Let_def)
qed

lemma cg_strike_step:
  assumes "cg_charge_loc e = Some loc" "cg_state e = Strike"
  shows "\<exists>e'. cg_strike g e = Inr e'
     \<and> cg_state e' =
         (if sqrt ((fst loc - e_x e)\<^sup>2 + (snd loc - e_y e)\<^sup>2) < 25 then Break else cg_state e)
     \<and> cg_charge_loc e' = cg_charge_loc e \<and> cg_charge_state e' = cg_charge_state e
     \<and> cg_speed e' = cg_speed e \<and> cg_obj e' = cg_obj e
     \<and> (cg_state e' = Break \<longrightarrow> cg_break_deg e' \<noteq> None)
     \<and> (cg_state e' \<noteq> Break \<longrightarrow> cg_break_deg e' = cg_break_deg e)
     \<and> e_size e' = e_size e \<and> e_color e' = e_color e"
  using assms by (simp add: cg_strike_def Let_def)

lemma cg_break_step:
  assumes "cg_break_deg e = Some a"
  shows "\<exists>e'. cg_break g e = Inr e'
     \<and> cg_state e' = (if cg_speed e - 1.5 \<le> 2 then Hunt else cg_state e)
     \<and> cg_speed e' = (if cg_speed e - 1.5 \<le> 2 then 2 else cg_speed e - 1.5)
     \<and> cg_obj e' =
         (if cg_speed e - 1.5 \<le> 2 then itemconfigure (cg_obj e) (e_color e) else cg_obj e)
     \<and> cg_charge_loc e' = cg_charge_loc e \<and> cg_charge_state e' = cg_charge_state e
     \<and> cg_break_deg e' = cg_break_deg e
     \<and> e_size e' = e_size e \<and> e_color e' = e_color e"
  using assms by (simp add: cg_break_def cg_break_acc_def cg_hunt_speed_def Let_def)

lemma update_charger:
  "update g (Charger e) =
     and_then (charger_state_call g e)
       (\<lambda>e1. Inr (Charger e1, if hits_player g e1 then game_over_lose g else g))"
  by (cases "charger_state_call g e") (simp_all add: update.simps charger_update_def)

lemma charger_state_call_step:
  assumes "charger_inv e"
  shows "\<exists>e'. charger_state_call g e = Inr e' \<and> charger_inv e'
    \<and> e_size e' = e_size e \<and> e_color e' = e_color e
    \<and> (cg_state e = Hunt \<longrightarrow>
          cg_state e' =
            (if sqrt ((p_x (player g) - e_x e)\<^sup>2 + (p_y (player g) - e_y e)\<^sup>2) \<le> 150
             then Charge else Hunt))
    \<and> (cg_state e = Charge \<longrightarrow>
          (if 20 < cg_charge_state e + 2
           then cg_state e' = Strike
              \<and> cg_charge_loc e' = Some (p_x (player g), p_y (player g))
              \<and> cg_speed e' = 25
           else cg_state e' = Charge \<and> cg_charge_state e' = cg_charge_state e + 2))
    \<and> (cg_state e = Strike \<longrightarrow>
          (\<exists>loc. cg_charge_loc e = Some loc \<and> cg_charge_loc e' = Some loc
             \<and> cg_state e' =
                 (if sqrt ((fst loc - e_x e)\<^sup>2 + (snd loc - e_y e)\<^sup>2) < 25
                  then Break else Strike)))
    \<and> (cg_state e = Break \<longrightarrow>
          (if cg_speed e - 1.5 \<le> 2
           then cg_state e' = Hunt \<and> cg_speed e' = 2
              \<and> cg_obj e' = itemconfigure (cg_obj e) (e_color e)
           else cg_state e' = Break \<and> cg_speed e' = cg_speed e - 1.5))"
proof (cases "cg_state e")
  case Hunt
  with assms show ?thesis
    by (simp add: charger_state_call_def charger_inv_def cg_hunt_step)
      (simp add: cg_hunt_def Let_def)
next
  case Charge
  from cg_charge_step [OF assms, of g] obtain e' where "cg_charge g e = Inr e'"
     "cg_state e' = (if 20 < cg_charge_state e + 2 then Strike else cg_state e)"
     "cg_charge_state e' = (if 20 < cg_charge_state e + 2 then 0 else cg_charge_state e + 2)"
     "cg_charge_loc e' =
         (if 20 < cg_charge_state e + 2 then Some (p_x (player g), p_y (player g))
          else cg_charge_loc e)"
     "cg_speed e' = (if 20 < cg_charge_state e + 2 then 25 else cg_speed e)"
     "cg_break_deg e' = cg_break_deg e" "e_size e' = e_size e" "e_color e' = e_color e"
    by blast
  with Charge assms show ?thesis
    by (auto simp: charger_state_call_def charger_inv_def)
next
  case Strike
  with assms obtain loc where l: "cg_charge_loc e = Some loc"
    by (auto simp: charger_inv_def)
  from cg_strike_step [OF l Strike, of g] Strike l assms show ?thesis
    by (auto simp: charger_state_call_def charger_inv_def)
next
  case Break
  with assms obtain a where a: "cg_break_deg e = Some a"
    by (auto simp: charger_inv_def)
  from cg_break_step [OF a, of g] Break a assms show ?thesis
    by (auto simp: charger_state_call_def charger_inv_def)
qed

text \<open>C5. One \<open>update()\<close> of a \<open>ChargerEnemy\<close> whose state the machine can reach returns, and
  changes the state exactly at the thresholds: hunt to charge when the distance to the
  player is at most 150 (else it stays in hunt); charge to strike when the timer, advanced
  by 2, exceeds 20, and then the player's position is stored as the target and the speed
  is 25 (else it stays in charge with the advanced timer); strike to brake when the
  distance to the stored target is below 25, the target staying fixed (else it stays in
  strike); brake to hunt when the speed, lowered by 1.5, is at most 2, and then the speed
  is 2 and the fill is the enemy's colour again (else it stays in brake at the lowered
  speed).\<close>

theorem charger_transitions:
  assumes "charger_inv e"
  shows "\<exists>e' g'. update g (Charger e) = Inr (Charger e', g') \<and> charger_inv e'
    \<and> (cg_state e = Hunt \<longrightarrow>
          cg_state e' =
            (if sqrt ((p_x (player g) - e_x e)\<^sup>2 + (p_y (player g) - e_y e)\<^sup>2) \<le> 150
             then Charge else Hunt))
    \<and> (cg_state e = Charge \<longrightarrow>
          (if 20 < cg_charge_state e + 2
           then cg_state e' = Strike
              \<and> cg_charge_loc e' = Some (p_x (player g), p_y (player g))
              \<and> cg_speed e' = 25
           else cg_state e' = Charge \<and> cg_charge_state e' = cg_charge_state e + 2))
    \<and> (cg_state e = Strike \<longrightarrow>
          (\<exists>loc. cg_charge_loc e = Some loc \<and> cg_charge_loc e' = Some loc
             \<and> cg_state e' =
                 (if sqrt ((fst loc - e_x e)\<^sup>2 + (snd loc - e_y e)\<^sup>2) < 25
                  then Break else Strike)))
    \<and> (cg_state e = Break \<longrightarrow>
          (if cg_speed e - 1.5 \<le> 2
           then cg_state e' = Hunt \<and> cg_speed e' = 2
              \<and> cg_obj e' = itemconfigure (cg_obj e) (e_color e)
           else cg_state e' = Break \<and> cg_speed e' = cg_speed e - 1.5))"
proof -
  from charger_state_call_step [OF assms, of g] obtain e' where
    c: "charger_state_call g e = Inr e'" and r: "charger_inv e'
    \<and> (cg_state e = Hunt \<longrightarrow>
          cg_state e' =
            (if sqrt ((p_x (player g) - e_x e)\<^sup>2 + (p_y (player g) - e_y e)\<^sup>2) \<le> 150
             then Charge else Hunt))
    \<and> (cg_state e = Charge \<longrightarrow>
          (if 20 < cg_charge_state e + 2
           then cg_state e' = Strike
              \<and> cg_charge_loc e' = Some (p_x (player g), p_y (player g))
              \<and> cg_speed e' = 25
           else cg_state e' = Charge \<and> cg_charge_state e' = cg_charge_state e + 2))
    \<and> (cg_state e = Strike \<longrightarrow>
          (\<exists>loc. cg_charge_loc e = Some loc \<and> cg_charge_loc e' = Some loc
             \<and> cg_state e' =
                 (if sqrt ((fst loc - e_x e)\<^sup>2 + (snd loc - e_y e)\<^sup>2) < 25
                  then Break else Strike)))
    \<and> (cg_state e = Break \<longrightarrow>
          (if cg_speed e - 1.5 \<le> 2
           then cg_state e' = Hunt \<and> cg_speed e' = 2
              \<and> cg_obj e' = itemconfigure (cg_obj e) (e_color e)
           else cg_state e' = Break \<and> cg_speed e' = cg_speed e - 1.5))"
    by blast
  have "update g (Charger e) = Inr (Charger e', if hits_player g e' then game_over_lose g else g)"
    by (simp add: update_charger c)
  with r show ?thesis by blast
qed

text \<open>A fresh charger at the player's position goes from hunt to charge.\<close>

theorem charger_transitions_witness:
  "charger_inv (charger_init 18 ''navy'')
   \<and> (\<exists>e' g'. update (new_game 800 500 4 (\<lambda>n. 0)) (Charger (charger_init 18 ''navy''))
                 = Inr (Charger e', g')
              \<and> cg_state e' = Charge)"
proof -
  have h: "charger_inv (charger_init 18 ''navy'')" by (rule charger_init_inv)
  have s: "cg_state (charger_init 18 ''navy'') = Hunt"
    "e_x (charger_init 18 ''navy'') = 0" "e_y (charger_init 18 ''navy'') = 0"
    "p_x (player (new_game 800 500 4 (\<lambda>n. 0))) = 0" "p_y (player (new_game 800 500 4 (\<lambda>n. 0))) = 0"
    by (simp_all add: charger_init_def new_game_def)
  from charger_transitions [OF h, of "new_game 800 500 4 (\<lambda>n. 0)"] h
  show ?thesis by (auto simp: s)
qed

subsection \<open>Enemy: size and colour\<close>

lemma random_walk_update_look:
  "e_size (fst (random_walk_update g e)) = e_size e
   \<and> e_color (fst (random_walk_update g e)) = e_color e
   \<and> rw_obj (fst (random_walk_update g e)) = rw_obj e"
  by (simp add: random_walk_update_def random_walk_move_def Let_def)

lemma chasing_update_look:
  "e_size (fst (chasing_update g e)) = e_size e
   \<and> e_color (fst (chasing_update g e)) = e_color e
   \<and> ch_obj (fst (chasing_update g e)) = ch_obj e"
  by (simp add: chasing_update_def Let_def)

lemma fencing_state_call_look:
  "e_size (fencing_state_call g e) = e_size e
   \<and> e_color (fencing_state_call g e) = e_color e
   \<and> fe_obj (fencing_state_call g e) = fe_obj e"
  by (cases "fe_state e")
     (auto simp: fencing_state_call_def move_up_def move_left_def move_down_def move_right_def
        Let_def)

lemma update_look:
  assumes "obj_inv e"
  shows "\<exists>e' g'. update g e = Inr (e', g') \<and> obj_inv e'
     \<and> obj_size e' = obj_size e \<and> obj_color e' = obj_color e \<and> type_of e' = type_of e"
proof (cases e)
  case (Demo d)
  then show ?thesis by (simp add: update.simps)
next
  case (RandomWalk r)
  then show ?thesis
    using random_walk_update_look [of g r]
    by (cases "random_walk_update g r") (simp add: update.simps)
next
  case (Chasing c)
  then show ?thesis
    using chasing_update_look [of g c]
    by (cases "chasing_update g c") (simp add: update.simps)
next
  case (Fencing f)
  then show ?thesis using fencing_state_call_look [of g f] by simp
next
  case (Charger c)
  with assms have "charger_inv c" by simp
  from charger_state_call_step [OF this, of g] Charger show ?thesis
    by (auto simp: update_charger)
qed

lemma updates_look:
  "obj_inv e \<Longrightarrow>
     \<exists>e'. updates gs e = Inr e' \<and> obj_inv e'
       \<and> obj_size e' = obj_size e \<and> obj_color e' = obj_color e \<and> type_of e' = type_of e"
proof (induction gs arbitrary: e)
  case Nil
  then show ?case by simp
next
  case (Cons g gs)
  from update_look [OF Cons.prems, of g] obtain e1 g1 where
    u: "update g e = Inr (e1, g1)" and i: "obj_inv e1"
    and l: "obj_size e1 = obj_size e" "obj_color e1 = obj_color e" "type_of e1 = type_of e"
    by blast
  from Cons.IH [OF i] u l show ?case by auto
qed

lemma registered_look:
  assumes "instantiate ty sz col g0 = Inr (e, g1)"
  shows "obj_inv (create (set_pos loc e)) \<and> obj_size (create (set_pos loc e)) = sz
     \<and> obj_color (create (set_pos loc e)) = col \<and> type_of (create (set_pos loc e)) = ty"
  using assms
  by (cases ty)
     (auto simp: and_then_Inr_iff enemy_init_def random_walk_init_def chasing_init_def
        fencing_init_def charger_init_def charger_inv_def)

lemma cg_charge_look:
  "cg_charge g c = Inr c' \<Longrightarrow>
     e_color c' = e_color c \<and> e_size c' = e_size c \<and> e_x c' = e_x c \<and> e_y c' = e_y c"
  by (auto simp: cg_charge_def and_then_Inr_iff Let_def split: if_splits)

lemma cg_break_look:
  "cg_break g c = Inr c' \<Longrightarrow> cg_state c = Break \<Longrightarrow> cg_state c' = Hunt \<Longrightarrow>
     e_color c' = e_color c \<and> cg_obj c' = itemconfigure (cg_obj c) (e_color c')"
  by (auto simp: cg_break_def Let_def split: option.splits if_splits)

text \<open>C10. An enemy of any variant, constructed with a size and a colour, positioned and
  registered, and then updated any number of times in any game states: every sequence of
  updates returns, and the properties \<open>size\<close> and \<open>color\<close> are the constructor's arguments
  throughout. The charge phase of a \<open>ChargerEnemy\<close> leaves \<open>color\<close> and \<open>size\<close> alone and
  changes the fill of the canvas item (to red at timer 0, whatever the colour); the reset
  from brake to hunt sets the fill to the unchanged \<open>color\<close>.\<close>

theorem size_and_color_constant:
  assumes "instantiate ty sz col g0 = Inr (e, g1)"
  shows "(\<exists>e'. updates gs (create (set_pos loc e)) = Inr e'
           \<and> obj_size e' = sz \<and> obj_color e' = col \<and> type_of e' = ty)
     \<and> (\<forall>g c c'. cg_charge g c = Inr c' \<longrightarrow>
           e_color c' = e_color c \<and> e_size c' = e_size c)
     \<and> (\<forall>g c. cg_charge_state c = 0 \<longrightarrow> cg_obj c = Some (e_color c) \<longrightarrow>
           (\<exists>c'. cg_charge g c = Inr c' \<and> cg_obj c' = Some ''red'' \<and> e_color c' = e_color c))
     \<and> (\<forall>g c c'. cg_break g c = Inr c' \<longrightarrow> cg_state c = Break \<longrightarrow> cg_state c' = Hunt \<longrightarrow>
           e_color c' = e_color c \<and> cg_obj c' = itemconfigure (cg_obj c) (e_color c'))"
proof -
  from registered_look [OF assms, of loc]
  have i: "obj_inv (create (set_pos loc e))" and l: "obj_size (create (set_pos loc e)) = sz"
    "obj_color (create (set_pos loc e)) = col" "type_of (create (set_pos loc e)) = ty"
    by simp_all
  from updates_look [OF i, of gs] l
  have 1: "\<exists>e'. updates gs (create (set_pos loc e)) = Inr e'
           \<and> obj_size e' = sz \<and> obj_color e' = col \<and> type_of e' = ty"
    by auto
  have 3: "\<exists>c'. cg_charge g c = Inr c' \<and> cg_obj c' = Some ''red'' \<and> e_color c' = e_color c"
    if "cg_charge_state c = 0" "cg_obj c = Some (e_color c)" for g c
    using that
    by (simp add: cg_charge_def lookup_charge_col itemconfigure_def cg_charge_speed_def Let_def)
  show ?thesis using 1 3 cg_charge_look cg_break_look by blast
qed

text \<open>A charger of size 18 and colour navy, updated twice.\<close>

theorem size_and_color_constant_witness:
  "\<exists>e'. updates [new_game 800 500 4 (\<lambda>n. 0), new_game 800 500 4 (\<lambda>n. 0)]
            (create (set_pos (0, 0) (Charger (charger_init 18 ''navy'')))) = Inr e'
      \<and> obj_size e' = 18 \<and> obj_color e' = ''navy'' \<and> type_of e' = ChargerEnemy"
proof -
  have h: "instantiate ChargerEnemy 18 ''navy'' (new_game 800 500 4 (\<lambda>n. 0))
             = Inr (Charger (charger_init 18 ''navy''), new_game 800 500 4 (\<lambda>n. 0))"
    by simp
  from size_and_color_constant [OF h] show ?thesis by blast
qed

subsection \<open>Enemy: the hit test at the end of update\<close>

lemma hits_player_drawn [simp]: "hits_player (g\<lparr>drawn := n\<rparr>) e = hits_player g e"
  by (simp add: hits_player_def)

lemma drawn_game_over_lose [simp]: "drawn (game_over_lose g) = drawn g"
  by (simp add: game_over_lose_def stop_def)

lemma update_signals_lose:
  assumes "type_of e \<noteq> DemoEnemy" "update g e = Inr (e', g')"
  shows "g' = (if obj_hits_player g e' then game_over_lose (g\<lparr>drawn := drawn g'\<rparr>)
               else g\<lparr>drawn := drawn g'\<rparr>)"
proof (cases e)
  case (Demo d)
  with assms show ?thesis by simp
next
  case (RandomWalk r)
  with assms(2) show ?thesis
    by (auto simp: update.simps random_walk_update_def Let_def)
next
  case (Chasing c)
  with assms(2) show ?thesis
    by (auto simp: update.simps chasing_update_def Let_def)
next
  case (Fencing f)
  with assms(2) show ?thesis by auto
next
  case (Charger c)
  with assms(2) show ?thesis
    by (auto simp: update_charger and_then_Inr_iff)
qed

lemma game_over_lose_neq: "game_over_lose g \<noteq> g"
proof
  assume "game_over_lose g = g"
  then have "texts (game_over_lose g) = texts g" by simp
  then show False by (simp add: game_over_lose_def stop_def)
qed

text \<open>C3 (amended). For the four moving variants (RandomWalk, Chasing, Fencing, Charger)
  every \<open>update()\<close> that returns has ended with the \<open>hits_player()\<close> test on the updated
  enemy: apart from the random draws it consumed, the game it leaves is the game it found
  if the test is false, and that game after \<open>game_over_lose\<close> (which stops it and is never
  a no-op) if the test is true. An update of an enemy in a state its machine can reach
  does return. \<open>DemoEnemy.update\<close> is \<open>pass\<close>: it tests nothing and changes nothing.\<close>

theorem update_ends_with_hit_check:
  "(type_of e \<noteq> DemoEnemy \<longrightarrow> update g e = Inr (e', g') \<longrightarrow>
       g' = (if obj_hits_player g e' then game_over_lose (g\<lparr>drawn := drawn g'\<rparr>)
             else g\<lparr>drawn := drawn g'\<rparr>))
   \<and> (obj_inv e \<longrightarrow> (\<exists>e1 g1. update g e = Inr (e1, g1)))
   \<and> (type_of e = DemoEnemy \<longrightarrow> update g e = Inr (e, g))
   \<and> game_over_lose g \<noteq> g \<and> \<not> is_running (game_over_lose g)"
proof -
  have "update g e = Inr (e, g)" if "type_of e = DemoEnemy"
    using that by (cases e) (simp_all add: update.simps)
  moreover have "\<exists>e1 g1. update g e = Inr (e1, g1)" if "obj_inv e"
    using update_look [OF that, of g] by blast
  ultimately show ?thesis
    using update_signals_lose [of e g e' g'] game_over_lose_neq [of g]
    by (simp add: game_over_lose_def stop_def)
qed

text \<open>A fresh charger on top of the player: the update signals the loss.\<close>

theorem update_ends_with_hit_check_witness:
  "update (new_game 800 500 4 (\<lambda>n. 0)) (Charger (charger_init 18 ''navy''))
     = Inr (Charger ((charger_init 18 ''navy'')\<lparr>cg_state := Charge\<rparr>),
            game_over_lose (new_game 800 500 4 (\<lambda>n. 0)))
   \<and> obj_hits_player (new_game 800 500 4 (\<lambda>n. 0))
        (Charger ((charger_init 18 ''navy'')\<lparr>cg_state := Charge\<rparr>))
   \<and> \<not> is_running (game_over_lose (new_game 800 500 4 (\<lambda>n. 0)))"
proof -
  let ?g = "new_game 800 500 4 (\<lambda>n. 0)" and ?e = "Charger (charger_init 18 ''navy'')"
  let ?e' = "Charger ((charger_init 18 ''navy'')\<lparr>cg_state := Charge\<rparr>)"
  have h: "obj_hits_player ?g ?e'"
    by (simp add: hits_player_def new_game_def charger_init_def)
  have s: "charger_state_call ?g (charger_init 18 ''navy'')
             = Inr ((charger_init 18 ''navy'')\<lparr>cg_state := Charge\<rparr>)"
    by (simp add: charger_state_call_def cg_hunt_def charger_init_def new_game_def
        cg_charge_rad_def)
  have u: "update ?g ?e = Inr (?e', game_over_lose ?g)"
    using h by (simp add: update_charger s)
  have t: "type_of ?e \<noteq> DemoEnemy" by simp
  from update_ends_with_hit_check [of ?e ?g ?e' "game_over_lose ?g"] t u h
  show ?thesis by simp
qed

text \<open>A \<open>DemoEnemy\<close> of size 20 at the player's position hits the player, and its
  update leaves the game running with no text drawn.\<close>

theorem demo_enemy_no_hit_check_counterexample:
  "obj_hits_player (new_game 800 500 1 (\<lambda>n. 0)) (Demo (enemy_init 20 ''red''))
   \<and> update (new_game 800 500 1 (\<lambda>n. 0)) (Demo (enemy_init 20 ''red''))
       = Inr (Demo (enemy_init 20 ''red''), new_game 800 500 1 (\<lambda>n. 0))
   \<and> is_running (new_game 800 500 1 (\<lambda>n. 0))
   \<and> texts (new_game 800 500 1 (\<lambda>n. 0)) = []"
  by (simp add: update.simps hits_player_def new_game_def enemy_init_def)

subsection \<open>Player: update\<close>

lemma sqrt_sum_squares_pos: "(xx, yy) \<noteq> (0, 0) \<Longrightarrow> 0 < sqrt (xx\<^sup>2 + yy\<^sup>2)"
  by (auto simp: sum_power2_gt_zero_iff)

lemma cos_arctan_div:
  assumes "xx \<noteq> 0"
  shows "cos (arctan (yy / xx)) = \<bar>xx\<bar> / sqrt (xx\<^sup>2 + yy\<^sup>2)"
proof -
  have "1 + (yy / xx)\<^sup>2 = (xx\<^sup>2 + yy\<^sup>2) / xx\<^sup>2"
    using assms by (simp add: field_simps power2_eq_square)
  then have "sqrt (1 + (yy / xx)\<^sup>2) = sqrt (xx\<^sup>2 + yy\<^sup>2) / \<bar>xx\<bar>"
    by (simp add: real_sqrt_divide)
  then show ?thesis by (simp add: cos_arctan)
qed

lemma sin_arctan_div:
  assumes "xx \<noteq> 0"
  shows "sin (arctan (yy / xx)) = (yy / xx) * \<bar>xx\<bar> / sqrt (xx\<^sup>2 + yy\<^sup>2)"
proof -
  have "1 + (yy / xx)\<^sup>2 = (xx\<^sup>2 + yy\<^sup>2) / xx\<^sup>2"
    using assms by (simp add: field_simps power2_eq_square)
  then have "sqrt (1 + (yy / xx)\<^sup>2) = sqrt (xx\<^sup>2 + yy\<^sup>2) / \<bar>xx\<bar>"
    by (simp add: real_sqrt_divide)
  then show ?thesis by (simp add: sin_arctan)
qed

lemma cos_atan2:
  assumes "(xx, yy) \<noteq> (0, 0)"
  shows "cos (atan2 yy xx) = xx / sqrt (xx\<^sup>2 + yy\<^sup>2)"
proof -
  consider "0 < xx" | "xx < 0" | "xx = 0" "yy \<noteq> 0" using assms by fastforce
  then show ?thesis
  proof cases
    case 1
    then show ?thesis by (simp add: atan2_def cos_arctan_div)
  next
    case 2
    then show ?thesis by (simp add: atan2_def cos_arctan_div)
  next
    case 3
    then show ?thesis by (simp add: atan2_def)
  qed
qed

lemma sin_atan2:
  assumes "(xx, yy) \<noteq> (0, 0)"
  shows "sin (atan2 yy xx) = yy / sqrt (xx\<^sup>2 + yy\<^sup>2)"
proof -
  consider "0 < xx" | "xx < 0" | "xx = 0" "0 < yy" | "xx = 0" "yy < 0" using assms by fastforce
  then show ?thesis
  proof cases
    case 1
    then show ?thesis by (simp add: atan2_def sin_arctan_div)
  next
    case 2
    then show ?thesis by (simp add: atan2_def sin_arctan_div)
  next
    case 3
    then show ?thesis by (simp add: atan2_def)
  next
    case 4
    then show ?thesis by (simp add: atan2_def)
  qed
qed

lemma game_over_win_fields [simp]:
  "player (game_over_win g) = player g" "waypoint (game_over_win g) = waypoint g"
  "home (game_over_win g) = home g" "elements (game_over_win g) = elements g"
  "timers (game_over_win g) = []" "is_running (game_over_win g) = False"
  "texts (game_over_win g) = texts g @ [(''You Win'', ''green'')]"
  by (simp_all add: game_over_win_def stop_def)

lemma update_player_active:
  assumes "w_active (waypoint g)"
  shows "player (update_player g) = advanced g"
    and "waypoint (update_player g) =
           (if distance (advanced g) (w_x (waypoint g)) (w_y (waypoint g)) < p_speed (player g)
            then deactivate (waypoint g) else waypoint g)"
  using assms by (simp_all add: update_player_def advanced_def Let_def forward_def setheading_def)

lemma update_player_inactive:
  assumes "\<not> w_active (waypoint g)"
  shows "player (update_player g) = player g" "waypoint (update_player g) = waypoint g"
  using assms by (simp_all add: update_player_def Let_def)

lemma update_player_win:
  "is_running (update_player g)
     = (is_running g \<and> \<not> contains (home g) (p_x (player g)) (p_y (player g)))"
  "texts (update_player g)
     = texts g @ (if contains (home g) (p_x (player g)) (p_y (player g))
                  then [(''You Win'', ''green'')] else [])"
  "home (update_player g) = home g" "elements (update_player g) = elements g"
  by (simp_all add: update_player_def Let_def)

lemma advanced_step:
  "p_x (advanced g) = p_x (player g)
      + p_speed (player g) * cos (towards (player g) (w_x (waypoint g)) (w_y (waypoint g)))"
  "p_y (advanced g) = p_y (player g)
      + p_speed (player g) * sin (towards (player g) (w_x (waypoint g)) (w_y (waypoint g)))"
  "p_speed (advanced g) = p_speed (player g)"
  by (simp_all add: advanced_def forward_def setheading_def)

lemma advanced_length:
  "(p_x (advanced g) - p_x (player g))\<^sup>2 + (p_y (advanced g) - p_y (player g))\<^sup>2
     = (p_speed (player g))\<^sup>2"
proof -
  let ?a = "towards (player g) (w_x (waypoint g)) (w_y (waypoint g))"
  have "(p_speed (player g) * cos ?a)\<^sup>2 + (p_speed (player g) * sin ?a)\<^sup>2
      = (p_speed (player g))\<^sup>2 * ((cos ?a)\<^sup>2 + (sin ?a)\<^sup>2)"
    by (simp only: power_mult_distrib distrib_left)
  also have "\<dots> = (p_speed (player g))\<^sup>2"
    by simp
  finally have "(p_speed (player g) * cos ?a)\<^sup>2 + (p_speed (player g) * sin ?a)\<^sup>2
      = (p_speed (player g))\<^sup>2" .
  then show ?thesis by (simp only: advanced_step add_diff_cancel_left')
qed

lemma advanced_direction:
  assumes "(w_x (waypoint g), w_y (waypoint g)) \<noteq> (p_x (player g), p_y (player g))"
  shows "p_x (advanced g) = p_x (player g)
      + p_speed (player g) * ((w_x (waypoint g) - p_x (player g))
          / distance (player g) (w_x (waypoint g)) (w_y (waypoint g)))"
    and "p_y (advanced g) = p_y (player g)
      + p_speed (player g) * ((w_y (waypoint g) - p_y (player g))
          / distance (player g) (w_x (waypoint g)) (w_y (waypoint g)))"
proof -
  have "(w_x (waypoint g) - p_x (player g), w_y (waypoint g) - p_y (player g)) \<noteq> (0, 0)"
    using assms by auto
  from cos_atan2 [OF this] sin_atan2 [OF this]
  show "p_x (advanced g) = p_x (player g)
      + p_speed (player g) * ((w_x (waypoint g) - p_x (player g))
          / distance (player g) (w_x (waypoint g)) (w_y (waypoint g)))"
    and "p_y (advanced g) = p_y (player g)
      + p_speed (player g) * ((w_y (waypoint g) - p_y (player g))
          / distance (player g) (w_x (waypoint g)) (w_y (waypoint g)))"
    by (simp_all add: advanced_step towards_def distance_def)
qed

text \<open>C4 (amended). \<open>Player.update\<close>: game-over-win is signalled exactly when the home
  contains the player's position at the start of the update. Whether or not it is, an
  active waypoint makes the player advance: the new position is \<open>speed\<close> times the unit
  vector of the heading towards the waypoint away from the old one, so the step has length
  exactly \<open>speed\<close>, and when the waypoint is not the player's own position that is \<open>speed\<close>
  times the direction to the waypoint; the waypoint is deactivated on that update exactly
  when the distance from the new position to it is below \<open>speed\<close>. With an inactive
  waypoint the player and the waypoint are unchanged.\<close>

theorem update_player_behaviour:
  "is_running (update_player g)
     = (is_running g \<and> \<not> contains (home g) (p_x (player g)) (p_y (player g)))
   \<and> texts (update_player g)
     = texts g @ (if contains (home g) (p_x (player g)) (p_y (player g))
                  then [(''You Win'', ''green'')] else [])
   \<and> (w_active (waypoint g) \<longrightarrow>
        player (update_player g) = advanced g
      \<and> (p_x (advanced g) - p_x (player g))\<^sup>2 + (p_y (advanced g) - p_y (player g))\<^sup>2
           = (p_speed (player g))\<^sup>2
      \<and> ((w_x (waypoint g), w_y (waypoint g)) \<noteq> (p_x (player g), p_y (player g)) \<longrightarrow>
           p_x (advanced g) = p_x (player g)
             + p_speed (player g) * ((w_x (waypoint g) - p_x (player g))
                 / distance (player g) (w_x (waypoint g)) (w_y (waypoint g)))
         \<and> p_y (advanced g) = p_y (player g)
             + p_speed (player g) * ((w_y (waypoint g) - p_y (player g))
                 / distance (player g) (w_x (waypoint g)) (w_y (waypoint g))))
      \<and> waypoint (update_player g) =
           (if distance (advanced g) (w_x (waypoint g)) (w_y (waypoint g)) < p_speed (player g)
            then deactivate (waypoint g) else waypoint g))
   \<and> (\<not> w_active (waypoint g) \<longrightarrow>
        player (update_player g) = player g \<and> waypoint (update_player g) = waypoint g)"
  using update_player_win(1,2) [of g] update_player_active [of g] update_player_inactive [of g]
    advanced_length [of g] advanced_direction [of g]
  by simp

lemma towards_right:
  "0 < d \<Longrightarrow> towards \<lparr>p_x = a, p_y = b, p_heading = h, p_speed = s\<rparr> (a + d) b = 0"
  by (simp add: towards_def atan2_def)

text \<open>Outside the home, 3 short of the waypoint: the player steps 5 to \<open>x = 102\<close> and the
  waypoint, now 2 away, is deactivated.\<close>

theorem update_player_witness:
  "player (update_player player_arriving) = \<lparr>p_x = 102, p_y = 250, p_heading = 0, p_speed = 5\<rparr>
   \<and> \<not> w_active (waypoint (update_player player_arriving))
   \<and> is_running (update_player player_arriving)"
proof -
  have a: "w_active (waypoint player_arriving)"
    by (simp add: player_arriving_def)
  have t: "towards (player player_arriving) (w_x (waypoint player_arriving))
             (w_y (waypoint player_arriving)) = 0"
    using towards_right [of 3 97 250 0 5] by (simp add: player_arriving_def new_game_def)
  have p: "advanced player_arriving = \<lparr>p_x = 102, p_y = 250, p_heading = 0, p_speed = 5\<rparr>"
    unfolding advanced_def t
    by (simp add: forward_def setheading_def player_arriving_def new_game_def)
  have d: "distance (advanced player_arriving) (w_x (waypoint player_arriving))
             (w_y (waypoint player_arriving)) < p_speed (player player_arriving)"
    unfolding p by (simp add: distance_def player_arriving_def new_game_def)
  have c: "\<not> contains (home player_arriving) (p_x (player player_arriving))
             (p_y (player player_arriving))"
    by (simp add: contains_def player_arriving_def new_game_def home_init_def)
  have r: "is_running player_arriving" by (simp add: player_arriving_def new_game_def)
  from update_player_behaviour [of player_arriving] a p d c r
  show ?thesis by (simp add: deactivate_def)
qed

text \<open>Inside the home with an active waypoint: the update signals the win and the player
  still moves from \<open>x = 700\<close> to \<open>x = 705\<close>.\<close>

theorem player_moves_after_win_counterexample:
  "contains (home player_at_home) (p_x (player player_at_home)) (p_y (player player_at_home))
   \<and> \<not> is_running (update_player player_at_home)
   \<and> p_x (player player_at_home) = 700
   \<and> p_x (player (update_player player_at_home)) = 705"
proof -
  have a: "w_active (waypoint player_at_home)"
    by (simp add: player_at_home_def)
  have t: "towards (player player_at_home) (w_x (waypoint player_at_home))
             (w_y (waypoint player_at_home)) = 0"
    using towards_right [of 50 700 250 0 5] by (simp add: player_at_home_def new_game_def)
  have c: "contains (home player_at_home) (p_x (player player_at_home))
             (p_y (player player_at_home))"
    by (simp add: contains_def player_at_home_def new_game_def home_init_def)
  have "p_x (player (update_player player_at_home)) = 705"
    unfolding update_player_active(1) [OF a] advanced_step t
    by (simp add: player_at_home_def)
  with c update_player_win(1) [of player_at_home] show ?thesis
    by (simp add: player_at_home_def)
qed

subsection \<open>Home: what changes it and what does not\<close>

lemma same_session_drawn [simp]: "same_session g (g\<lparr>drawn := n\<rparr>)"
  by (simp add: same_session_def)

lemma instantiate_frame:
  assumes "instantiate ty sz col g = Inr (e, g')"
  shows "(\<exists>n. g' = g\<lparr>drawn := n\<rparr>) \<and> type_of e = ty"
  using instantiate_ok [of ty sz col g] assms by auto

lemma spawn_location_frame:
  "spawn_location g = Inr (loc, g') \<Longrightarrow> \<exists>n. g' = g\<lparr>drawn := n\<rparr>"
  by (auto simp: spawn_location_def and_then_Inr_iff)

lemma obj_spawn_location_frame:
  "obj_spawn_location g e = Inr (loc, g') \<Longrightarrow> \<exists>n. g' = g\<lparr>drawn := n\<rparr>"
  by (cases e) (auto dest: spawn_location_frame intro: exI[of _ "drawn g"])

lemma elements_add_element:
  "elements (add_element (ElEnemy e) g) = elements g @ [ElEnemy (create e)]"
  by simp

lemma spawn_enemy_frame:
  assumes "spawn_enemy ty sz col d q g = Inr g'"
  shows "same_session g g' \<and> clock g' = clock g
       \<and> (if 0 < q
           then (\<exists>e. elements g' = elements g @ [ElEnemy e] \<and> type_of e = ty)
              \<and> timers g' = insert_timer (clock g + d, SpawnEnemy ty sz col d (q - 1)) (timers g)
           else g' = g)"
proof (cases "0 < q")
  case False
  with assms show ?thesis by (simp add: spawn_enemy_def)
next
  case True
  with assms obtain e g1 loc g2 where
    c: "instantiate ty sz col g = Inr (e, g1)" and
    l: "obj_spawn_location g1 e = Inr (loc, g2)" and
    r: "g' = after d (SpawnEnemy ty sz col d (q - 1)) (add_element (ElEnemy (set_pos loc e)) g2)"
    by (auto simp: spawn_enemy_def and_then_Inr_iff)
  from instantiate_frame [OF c] obtain n where g1: "g1 = g\<lparr>drawn := n\<rparr>" and t: "type_of e = ty"
    by blast
  from obj_spawn_location_frame [OF l] obtain m where "g2 = g1\<lparr>drawn := m\<rparr>"
    by blast
  then have g2: "g2 = g\<lparr>drawn := m\<rparr>" by (simp add: g1)
  show ?thesis using True t unfolding r g2
    by (simp add: after_def same_session_def)
qed

lemma fire_timer_frame:
  assumes "fire_timer g = Inr g'"
  shows "same_session g g' \<and> (\<exists>es. elements g' = elements g @ es)"
proof (cases "timers g")
  case Nil
  with assms show ?thesis by (simp add: fire_timer_def)
next
  case (Cons t rest)
  obtain due ty sz col d q where t: "t = (due, SpawnEnemy ty sz col d q)"
    by (cases t, cases "snd t") auto
  let ?g = "g\<lparr>timers := rest, clock := max (clock g) due\<rparr>"
  from assms Cons t have "spawn_enemy ty sz col d q ?g = Inr g'"
    by (simp add: fire_timer_def)
  from spawn_enemy_frame [OF this] show ?thesis
    by (cases "0 < q") (auto simp: same_session_def)
qed

lemma update_home:
  assumes "update g e = Inr (e', g')"
  shows "home g' = home g"
proof (cases "type_of e = DemoEnemy")
  case True
  then have "update g e = Inr (e, g)" by (cases e) (simp_all add: update.simps)
  with assms show ?thesis by simp
next
  case False
  have "home (if c then game_over_lose (g\<lparr>drawn := k\<rparr>) else g\<lparr>drawn := k\<rparr>) = home g"
    for c k by (simp add: game_over_lose_def stop_def)
  with update_signals_lose [OF False assms] show ?thesis by metis
qed

lemma update_element_home:
  assumes "update_element i g = Inr g'"
  shows "home g' = home g"
proof (cases "elements g ! i")
  case (ElEnemy e)
  with assms obtain e' g1 where u: "update g e = Inr (e', g1)"
    and r: "g' = g1\<lparr>elements := (elements g1)[i := ElEnemy e']\<rparr>"
    by (auto simp: update_element_def and_then_Inr_iff)
  from update_home [OF u] r show ?thesis by simp
qed (use assms in \<open>auto simp: update_element_def update_player_win\<close>)

lemma update_pass_home:
  "update_pass n i g = Inr g' \<Longrightarrow> home g' = home g"
proof (induction n arbitrary: i g)
  case 0
  then show ?case by simp
next
  case (Suc n)
  show ?case
  proof (cases "is_running g")
    case True
    with Suc.prems obtain g1 where "update_element i g = Inr g1"
      "update_pass n (Suc i) g1 = Inr g'"
      by (auto simp: and_then_Inr_iff)
    with Suc.IH [of "Suc i" g1] update_element_home [of i g g1] show ?thesis by simp
  next
    case False
    with Suc.prems show ?thesis by simp
  qed
qed

lemma step_home:
  assumes "step ev g = Inr g'"
  shows "home g' = home g"
proof (cases ev)
  case Tick
  with assms show ?thesis
    by (auto simp: tick_def dest: update_pass_home split: if_splits)
next
  case Timer
  with assms fire_timer_frame [of g g'] show ?thesis
    by (auto simp: fire_next_def same_session_def split: if_splits)
next
  case (Click xx yy)
  with assms show ?thesis by auto
qed

lemma run_home: "run evs g = Inr g' \<Longrightarrow> home g' = home g"
proof (induction evs arbitrary: g)
  case Nil
  then show ?case by simp
next
  case (Cons ev evs)
  then obtain g1 where "step ev g = Inr g1" "run evs g1 = Inr g'"
    by (auto simp: and_then_Inr_iff)
  with Cons.IH [of g1] step_home [of ev g g1] show ?case by simp
qed

lemma spawn_times_frame:
  "spawn_times n ty sz col d q g = Inr g' \<Longrightarrow> same_session g g'"
proof (induction n arbitrary: g)
  case 0
  then show ?case by simp
next
  case (Suc n)
  then obtain g1 where s: "spawn_enemy ty sz col d q g = Inr g1"
    and r: "spawn_times n ty sz col d q g1 = Inr g'"
    by (auto simp: and_then_Inr_iff)
  from spawn_enemy_frame [OF s] Suc.IH [OF r] show ?case
    by (auto intro: same_session_trans)
qed

lemma spawn_low_frame:
  "spawn_low ixs g = Inr g' \<Longrightarrow> same_session g g'"
proof (induction ixs arbitrary: g)
  case Nil
  then show ?case by simp
next
  case (Cons i ixs)
  obtain ty sz col d q where sp: "enemies_type ! i = (ty, sz, col, d, q)"
    by (cases "enemies_type ! i") auto
  from Cons.prems obtain amount g1 where
    "spawn_enemy ty sz col 100 amount g = Inr g1" "spawn_low ixs g1 = Inr g'"
    by (auto simp: and_then_Inr_iff sp)
  with spawn_enemy_frame [of ty sz col 100 amount g g1] Cons.IH [of g1] show ?case
    by (auto intro: same_session_trans)
qed

lemma spawn_high_frame:
  "spawn_high specs g = Inr g' \<Longrightarrow> same_session g g'"
proof (induction specs arbitrary: g)
  case Nil
  then show ?case by simp
next
  case (Cons sp specs)
  obtain ty sz col d q where sp: "sp = (ty, sz, col, d, q)" by (cases sp) auto
  from Cons.prems obtain n g1 where
    "spawn_times (nat n) ty sz col (d div (1 + level g div 10)) q g = Inr g1"
    "spawn_high specs g1 = Inr g'"
    unfolding sp by (auto simp: and_then_Inr_iff)
  with spawn_times_frame [of "nat n" ty sz col _ q g g1] Cons.IH [of g1] show ?case
    by (auto intro: same_session_trans)
qed

lemma create_enemy_frame: "create_enemy g = Inr g' \<Longrightarrow> same_session g g'"
  by (auto simp: create_enemy_def dest: spawn_low_frame spawn_high_frame split: if_splits)

lemma init_game_home:
  assumes "init_game width height lvl r = Inr g"
  shows "home g = home_init (real_of_int (width - 100), real_of_int (height div 2)) 20"
proof -
  from assms obtain g1 where c: "create_enemy (new_game width height lvl r) = Inr g1"
    and g: "g = g1\<lparr>player := (player g1)\<lparr>p_x := 50, p_y := real_of_int (height div 2)\<rparr>\<rparr>"
    by (auto simp: init_game_def and_then_Inr_iff)
  from create_enemy_frame [OF c] have "home g1 = home (new_game width height lvl r)"
    by (simp add: same_session_def)
  then show ?thesis by (simp add: g new_game_def)
qed

text \<open>C9 (amended). The home of a constructed session is at
  \<open>(screen_width - 100, screen_height // 2)\<close> with size 20, and nothing the running program
  does changes it: not the generator, not any sequence of frame ticks, timer firings and
  clicks, not game-over. \<open>Home\<close> itself is not immutable: the setter of its public property
  \<open>size\<close> changes the size (and leaves the position).\<close>

theorem home_unchanged_by_play:
  "(init_game width height lvl r = Inr g \<longrightarrow>
      home g = home_init (real_of_int (width - 100), real_of_int (height div 2)) 20)
   \<and> (create_enemy g = Inr g' \<longrightarrow> home g' = home g)
   \<and> (run evs g = Inr g'' \<longrightarrow> home g'' = home g)
   \<and> home (game_over_win g) = home g \<and> home (game_over_lose g) = home g
   \<and> h_size (home_set_size val h) = val
   \<and> h_x (home_set_size val h) = h_x h \<and> h_y (home_set_size val h) = h_y h"
  using init_game_home [of width height lvl r g] create_enemy_frame [of g g'] run_home [of evs g g'']
  by (simp add: same_session_def game_over_lose_def stop_def home_set_size_def)

text \<open>The public setter changes the size of a constructed home from 20 to 40.\<close>

theorem home_setter_counterexample:
  "h_size (home_init (700, 250) 20) = 20
   \<and> h_size (home_set_size 40 (home_init (700, 250) 20)) = 40"
  by (simp add: home_init_def home_set_size_def)

lemma run_click_tick:
  "run [Click 5 0, Tick] (new_game 800 500 1 (\<lambda>n. 0))
     = Inr ((new_game 800 500 1 (\<lambda>n. 0))
             \<lparr>waypoint := \<lparr>w_x = 5, w_y = 0, w_active = False\<rparr>,
              player := \<lparr>p_x = 5, p_y = 0, p_heading = 0, p_speed = 5\<rparr>\<rparr>)"
  by (simp add: tick_def new_game_def update_element_def update_player_def activate_def
      deactivate_def contains_def home_init_def towards_def atan2_def setheading_def forward_def
      distance_def Let_def)

text \<open>A click at (5, 0) and one tick: the player walks there, the home stays.\<close>

theorem home_unchanged_witness:
  "run [Click 5 0, Tick] (new_game 800 500 1 (\<lambda>n. 0))
     = Inr ((new_game 800 500 1 (\<lambda>n. 0))
             \<lparr>waypoint := \<lparr>w_x = 5, w_y = 0, w_active = False\<rparr>,
              player := \<lparr>p_x = 5, p_y = 0, p_heading = 0, p_speed = 5\<rparr>\<rparr>)
   \<and> home ((new_game 800 500 1 (\<lambda>n. 0))
             \<lparr>waypoint := \<lparr>w_x = 5, w_y = 0, w_active = False\<rparr>,
              player := \<lparr>p_x = 5, p_y = 0, p_heading = 0, p_speed = 5\<rparr>\<rparr>)
       = home (new_game 800 500 1 (\<lambda>n. 0))
   \<and> home (new_game 800 500 1 (\<lambda>n. 0)) = \<lparr>h_x = 700, h_y = 250, h_size = 20\<rparr>"
proof -
  let ?g = "new_game 800 500 1 (\<lambda>n. 0)"
  let ?g' = "?g\<lparr>waypoint := \<lparr>w_x = 5, w_y = 0, w_active = False\<rparr>,
              player := \<lparr>p_x = 5, p_y = 0, p_heading = 0, p_speed = 5\<rparr>\<rparr>"
  have h: "home ?g = \<lparr>h_x = 700, h_y = 250, h_size = 20\<rparr>"
    by (simp add: new_game_def home_init_def)
  note t = home_unchanged_by_play [of 800 500 1 "\<lambda>n. 0" ?g ?g "[Click 5 0, Tick]" ?g' 0 "home ?g"]
  have "home ?g' = home ?g"
    by (rule mp [OF conjunct1 [OF conjunct2 [OF conjunct2 [OF t]]] run_click_tick])
  with run_click_tick h show ?thesis by (simp only: simp_thms)
qed

subsection \<open>Game over: the session stops\<close>

lemma init_game_first_session: "init_game 800 500 1 (\<lambda>n. 0) = Inr first_session"
  by (simp add: init_game_def new_game_def create_enemy_def enemies_type_def spawn_enemy_def
      random_walk_init_def spawn_location_def randint_def after_def home_init_def
      first_session_def)

lemma game_over_lose_fields [simp]:
  "player (game_over_lose g) = player g" "waypoint (game_over_lose g) = waypoint g"
  "home (game_over_lose g) = home g" "elements (game_over_lose g) = elements g"
  "timers (game_over_lose g) = []" "is_running (game_over_lose g) = False"
  "texts (game_over_lose g) = texts g @ [(''You Lose'', ''red'')]"
  by (simp_all add: game_over_lose_def stop_def)

lemma update_pass_stopped: "\<not> is_running g \<Longrightarrow> update_pass n i g = Inr g"
  by (cases n) simp_all

lemma tick_stopped: "\<not> is_running g \<Longrightarrow> tick g = Inr g"
  by (simp add: tick_def)

lemma fire_next_stopped: "\<not> is_running g \<Longrightarrow> fire_next g = Inr g"
  by (simp add: fire_next_def)

lemma step_stopped:
  assumes "\<not> is_running g"
  shows "\<exists>g'. step ev g = Inr g' \<and> \<not> is_running g' \<and> elements g' = elements g
       \<and> player g' = player g \<and> timers g' = timers g \<and> texts g' = texts g"
  using assms by (cases ev) (simp_all add: tick_stopped fire_next_stopped)

lemma run_stopped:
  "\<not> is_running g \<Longrightarrow>
     \<exists>g'. run evs g = Inr g' \<and> \<not> is_running g' \<and> elements g' = elements g
       \<and> player g' = player g \<and> timers g' = timers g \<and> texts g' = texts g"
proof (induction evs arbitrary: g)
  case Nil
  then show ?case by simp
next
  case (Cons ev evs)
  from step_stopped [OF Cons.prems, of ev] obtain g1 where
    s: "step ev g = Inr g1" and n: "\<not> is_running g1"
    and f: "elements g1 = elements g" "player g1 = player g" "timers g1 = timers g"
      "texts g1 = texts g"
    by blast
  from Cons.IH [OF n] s f show ?case by auto
qed

lemma pass_ends_at_win:
  assumes "is_running g" "elements g ! i = ElPlayer"
    and "contains (home g) (p_x (player g)) (p_y (player g))"
  shows "update_pass (Suc n) i g = Inr (update_player g)"
proof -
  have "\<not> is_running (update_player g)" using assms(3) by (simp add: update_player_win)
  then show ?thesis using assms(1,2) by (simp add: update_element_def update_pass_stopped)
qed

lemma pass_ends_at_hit:
  assumes "is_running g" "elements g ! i = ElEnemy e" "type_of e \<noteq> DemoEnemy"
    and "update g e = Inr (e', g1)" "obj_hits_player g e'"
  shows "update_pass (Suc n) i g = Inr (g1\<lparr>elements := (elements g1)[i := ElEnemy e']\<rparr>)
       \<and> \<not> is_running g1"
proof -
  from update_signals_lose [OF assms(3,4)] assms(5)
  have "g1 = game_over_lose (g\<lparr>drawn := drawn g1\<rparr>)" by simp
  then have "\<not> is_running g1" by (metis game_over_lose_fields(6))
  then show ?thesis using assms(1,2,4) by (simp add: update_element_def update_pass_stopped)
qed

text \<open>C1. Once a terminal condition has fired the game is stopped for good. After
  \<open>game_over_win\<close> or \<open>game_over_lose\<close>, whatever events follow (frame ticks, timer events,
  clicks), the session stays stopped, every registered element and the player stay as they
  were, no enemy is registered, and no timer is pending: a \<open>__spawn_enemy\<close> callback that
  was scheduled before game-over creates nothing afterwards. Within the pass in which the
  condition fires, the update that signals it is the last: when the player is in the home,
  or when an updated enemy of a moving variant hits the player, the pass ends with that
  element's update and the game is stopped.\<close>

theorem game_over_stops_updates_and_spawns:
  "(\<exists>g'. run evs (game_over_win g) = Inr g' \<and> \<not> is_running g'
        \<and> elements g' = elements g \<and> player g' = player g \<and> timers g' = [])
   \<and> (\<exists>g'. run evs (game_over_lose g) = Inr g' \<and> \<not> is_running g'
        \<and> elements g' = elements g \<and> player g' = player g \<and> timers g' = [])
   \<and> (\<not> is_running g \<longrightarrow> update_pass n i g = Inr g \<and> fire_next g = Inr g)
   \<and> (is_running g \<longrightarrow> elements g ! i = ElPlayer \<longrightarrow>
         contains (home g) (p_x (player g)) (p_y (player g)) \<longrightarrow>
         update_pass (Suc n) i g = Inr (update_player g) \<and> \<not> is_running (update_player g))
   \<and> (is_running g \<longrightarrow> elements g ! i = ElEnemy e \<longrightarrow> type_of e \<noteq> DemoEnemy \<longrightarrow>
         update g e = Inr (e', g1) \<longrightarrow> obj_hits_player g e' \<longrightarrow>
         update_pass (Suc n) i g = Inr (g1\<lparr>elements := (elements g1)[i := ElEnemy e']\<rparr>)
         \<and> \<not> is_running g1)"
proof -
  have w: "\<not> is_running (game_over_win g)" and l: "\<not> is_running (game_over_lose g)"
    by simp_all
  from run_stopped [OF w, of evs] run_stopped [OF l, of evs]
  have 1: "\<exists>g'. run evs (game_over_win g) = Inr g' \<and> \<not> is_running g'
        \<and> elements g' = elements g \<and> player g' = player g \<and> timers g' = []"
    and 2: "\<exists>g'. run evs (game_over_lose g) = Inr g' \<and> \<not> is_running g'
        \<and> elements g' = elements g \<and> player g' = player g \<and> timers g' = []"
    by auto
  have 4: "update_pass (Suc n) i g = Inr (update_player g) \<and> \<not> is_running (update_player g)"
    if "is_running g" "elements g ! i = ElPlayer"
      "contains (home g) (p_x (player g)) (p_y (player g))"
    using pass_ends_at_win [OF that] that(3) by (simp add: update_player_win)
  show ?thesis
    using 1 2 4 update_pass_stopped [of g n i] fire_next_stopped [of g]
      pass_ends_at_hit [of g i e e' g1 n]
    by blast
qed

text \<open>While the first session runs, its pending timer does fire and registers a fifth
  element.\<close>

lemma running_session_spawns:
  "map_sum id (\<lambda>g. length (elements g)) (fire_next first_session) = Inr 5"
  by (simp add: first_session_def fire_next_def fire_timer_def spawn_enemy_def
      random_walk_init_def spawn_location_def randint_def after_def)

text \<open>After a loss the first session keeps its four elements through a timer event, a
  tick and another timer event.\<close>

theorem game_over_witness:
  "\<exists>g'. run [Timer, Tick, Timer] (game_over_lose first_session) = Inr g'
      \<and> \<not> is_running g' \<and> length (elements g') = 4 \<and> timers g' = []"
proof -
  note t = game_over_stops_updates_and_spawns
    [where g = first_session and evs = "[Timer, Tick, Timer]"]
  from conjunct1 [OF conjunct2 [OF t]] obtain g' where
    "run [Timer, Tick, Timer] (game_over_lose first_session) = Inr g'" "\<not> is_running g'"
    "elements g' = elements first_session" "timers g' = []"
    by blast
  moreover have "length (elements first_session) = 4" by (simp add: first_session_def)
  ultimately show ?thesis by auto
qed

end
